theory Spec2Isabelle
  imports Complex_Main "HOL-Library.Multiset"
begin

section \<open>The cleaning engine of the unified data store\<close>

text \<open>
  This theory embeds the missing-value imputation and row-removal code of
  \<^verbatim>\<open>src/store/unified-data-store.ts\<close>: the helpers \<^verbatim>\<open>isCellMissing\<close>,
  \<^verbatim>\<open>calculateStatistic\<close> and \<^verbatim>\<open>calculateMode\<close>, the column loop of
  \<^verbatim>\<open>processMissingValues\<close>, and \<^verbatim>\<open>removeDuplicates\<close> / \<^verbatim>\<open>removeOutliers\<close>.

  Conventions of the embedding.
  \<^item> A JavaScript string is a \<open>string\<close>; a \<open>char\<close> stands for the code unit with the
    same number, so the strings covered are those over U+0000 .. U+00FF.
  \<^item> A JavaScript number is a \<open>number\<close>: NaN, the two infinities, or a finite
    binary64 value given by the rational it denotes. Arithmetic rounds to nearest,
    ties to even, as IEEE 754 does. The two zeros are not told apart.
  \<^item> A cell is a primitive value (\<open>null\<close>, \<open>undefined\<close>, a boolean, a number or a
    string); a row is the list of its cells, and reading a row past its end gives
    \<open>undefined\<close>, as an array read does.
\<close>

subsection \<open>Values\<close>

datatype number = NaN | PosInf | NegInf | Fin rat

datatype cell = Null | Undefined | Bool bool | Num number | Str string

subsection \<open>Number arithmetic\<close>

text \<open>
  Rounding of an exact rational result to binary64: 53 significant bits, exponents
  from -1022 (below it the spacing stays at \<open>2\<^sup>-\<^sup>1\<^sup>0\<^sup>7\<^sup>4\<close>, the subnormal range) to 1023, ties
  to the even significand, and overflow to an infinity.
\<close>

definition pow2 :: "int \<Rightarrow> rat" where
  "pow2 e = (if 0 \<le> e then 2 ^ nat e else 1 / 2 ^ nat (- e))"

function bitLength :: "int \<Rightarrow> nat" where
  "bitLength n = (if n \<le> 0 then 0 else Suc (bitLength (n div 2)))"
  by pat_completeness auto
termination
  by (relation "measure nat") auto

declare bitLength.simps [simp del]

text \<open>For \<open>0 < x\<close>, the exponent \<open>e\<close> with \<open>2\<^sup>e \<le> x < 2\<^sup>e\<^sup>+\<^sup>1\<close>.\<close>

definition binaryExponent :: "rat \<Rightarrow> int" where
  "binaryExponent x =
     (let (a, b) = quotient_of x;
          e0 = int (bitLength a) - int (bitLength b)
      in if pow2 e0 \<le> x then e0 else e0 - 1)"

definition roundHalfEven :: "rat \<Rightarrow> int" where
  "roundHalfEven x =
     (let f = \<lfloor>x\<rfloor>; d = x - of_int f
      in if d < 1 / 2 then f else if 1 / 2 < d then f + 1
         else if even f then f else f + 1)"

definition fl :: "rat \<Rightarrow> number" where
  "fl x =
     (if x = 0 then Fin 0
      else let a = \<bar>x\<bar>;
               e = max (binaryExponent a) (- 1022);
               q = pow2 (e - 52);
               y = of_int (roundHalfEven (a / q)) * q
           in if pow2 1024 \<le> y then (if 0 < x then PosInf else NegInf)
              else Fin (if 0 < x then y else - y))"

fun isNaN :: "number \<Rightarrow> bool" where
  "isNaN NaN = True"
| "isNaN _ = False"

fun negate :: "number \<Rightarrow> number" where
  "negate NaN = NaN"
| "negate PosInf = NegInf"
| "negate NegInf = PosInf"
| "negate (Fin x) = Fin (- x)"

fun fadd :: "number \<Rightarrow> number \<Rightarrow> number" where
  "fadd NaN _ = NaN"
| "fadd _ NaN = NaN"
| "fadd PosInf NegInf = NaN"
| "fadd NegInf PosInf = NaN"
| "fadd PosInf _ = PosInf"
| "fadd _ PosInf = PosInf"
| "fadd NegInf _ = NegInf"
| "fadd _ NegInf = NegInf"
| "fadd (Fin x) (Fin y) = fl (x + y)"

definition fsub :: "number \<Rightarrow> number \<Rightarrow> number" where
  "fsub a b = fadd a (negate b)"

text \<open>
  Division. The divisors of the code are array lengths and the constant 2, so a zero
  divisor is the positive zero.
\<close>

fun fdiv :: "number \<Rightarrow> number \<Rightarrow> number" where
  "fdiv NaN _ = NaN"
| "fdiv _ NaN = NaN"
| "fdiv (Fin x) (Fin y) =
     (if y = 0 then (if x = 0 then NaN else if 0 < x then PosInf else NegInf)
      else fl (x / y))"
| "fdiv (Fin x) _ = Fin 0"
| "fdiv PosInf (Fin y) = (if 0 \<le> y then PosInf else NegInf)"
| "fdiv NegInf (Fin y) = (if 0 \<le> y then NegInf else PosInf)"
| "fdiv _ _ = NaN"

fun fmul :: "number \<Rightarrow> number \<Rightarrow> number" where
  "fmul NaN _ = NaN"
| "fmul _ NaN = NaN"
| "fmul (Fin x) (Fin y) = fl (x * y)"
| "fmul (Fin x) PosInf = (if x = 0 then NaN else if 0 < x then PosInf else NegInf)"
| "fmul (Fin x) NegInf = (if x = 0 then NaN else if 0 < x then NegInf else PosInf)"
| "fmul PosInf (Fin y) = (if y = 0 then NaN else if 0 < y then PosInf else NegInf)"
| "fmul NegInf (Fin y) = (if y = 0 then NaN else if 0 < y then NegInf else PosInf)"
| "fmul PosInf PosInf = PosInf"
| "fmul NegInf NegInf = PosInf"
| "fmul _ _ = NegInf"

text \<open>The comparisons \<^verbatim>\<open><=\<close> and \<^verbatim>\<open><\<close>: false as soon as one side is NaN.\<close>

fun fle :: "number \<Rightarrow> number \<Rightarrow> bool" where
  "fle NaN _ = False"
| "fle _ NaN = False"
| "fle NegInf _ = True"
| "fle _ PosInf = True"
| "fle (Fin x) (Fin y) = (x \<le> y)"
| "fle _ _ = False"

fun flt :: "number \<Rightarrow> number \<Rightarrow> bool" where
  "flt NaN _ = False"
| "flt _ NaN = False"
| "flt PosInf _ = False"
| "flt _ NegInf = False"
| "flt (Fin x) (Fin y) = (x < y)"
| "flt _ _ = True"

text \<open>
  The number of an array length or a count: a natural below \<open>2\<^sup>3\<^sup>2\<close>, which binary64
  represents exactly.
\<close>

definition ofNat :: "nat \<Rightarrow> number" where
  "ofNat n = Fin (of_nat n)"

text \<open>\<^verbatim>\<open>Math.round\<close>: the nearest integer, a tie going up.\<close>

fun mathRound :: "number \<Rightarrow> number" where
  "mathRound (Fin x) = Fin (of_int \<lfloor>x + 1 / 2\<rfloor>)"
| "mathRound n = n"

text \<open>
  \<^verbatim>\<open>Math.min(...values)\<close> and \<^verbatim>\<open>Math.max(...values)\<close>: NaN as soon as one argument is
  NaN, \<open>+\<infinity>\<close> and \<open>-\<infinity>\<close> for no argument.
\<close>

definition fmin :: "number \<Rightarrow> number \<Rightarrow> number" where
  "fmin a b = (if isNaN a \<or> isNaN b then NaN else if fle a b then a else b)"

definition fmax :: "number \<Rightarrow> number \<Rightarrow> number" where
  "fmax a b = (if isNaN a \<or> isNaN b then NaN else if fle a b then b else a)"

definition mathMin :: "number list \<Rightarrow> number" where
  "mathMin vs = foldl fmin PosInf vs"

definition mathMax :: "number list \<Rightarrow> number" where
  "mathMax vs = foldl fmax NegInf vs"

text \<open>
  \<^verbatim>\<open>Array.prototype.sort(compare)\<close>: a stable sort; \<open>a\<close> goes after \<open>b\<close> when
  \<open>compare(a, b) > 0\<close>. With a consistent comparator every stable sorting algorithm
  returns the list that stable insertion returns.
\<close>

fun insertWith :: "('a \<Rightarrow> 'a \<Rightarrow> number) \<Rightarrow> 'a \<Rightarrow> 'a list \<Rightarrow> 'a list" where
  "insertWith cmp x [] = [x]"
| "insertWith cmp x (y # ys) =
     (if flt (Fin 0) (cmp x y) then y # insertWith cmp x ys else x # y # ys)"

fun sortWith :: "('a \<Rightarrow> 'a \<Rightarrow> number) \<Rightarrow> 'a list \<Rightarrow> 'a list" where
  "sortWith cmp [] = []"
| "sortWith cmp (x # xs) = insertWith cmp x (sortWith cmp xs)"

subsection \<open>String built-ins: \<^verbatim>\<open>trim\<close> and \<^verbatim>\<open>toLowerCase\<close>\<close>

text \<open>
  \<^verbatim>\<open>String.prototype.trim\<close> strips WhiteSpace and LineTerminator code points from both
  ends. Below U+0100 these are TAB, LF, VT, FF, CR, SP and NBSP.
\<close>

definition isWhiteSpace :: "char \<Rightarrow> bool" where
  "isWhiteSpace c =
     (c = CHR 0x09 \<or> c = CHR 0x0A \<or> c = CHR 0x0B \<or> c = CHR 0x0C \<or> c = CHR 0x0D
      \<or> c = CHR 0x20 \<or> c = CHR 0xA0)"

definition trim :: "string \<Rightarrow> string" where
  "trim s = rev (dropWhile isWhiteSpace (rev (dropWhile isWhiteSpace s)))"

text \<open>
  \<^verbatim>\<open>String.prototype.toLowerCase\<close> maps each code unit through the Unicode lower-case
  mapping. Below U+0100 the letters with a lower-case form are A .. Z and the Latin-1
  capitals U+00C0 .. U+00DE without the multiplication sign U+00D7; each maps to the code
  unit 32 above it.
\<close>

definition lowerChar :: "char \<Rightarrow> char" where
  "lowerChar c =
     (let n = (of_char c :: nat)
      in if (65 \<le> n \<and> n \<le> 90) \<or> (192 \<le> n \<and> n \<le> 222 \<and> n \<noteq> 215)
         then char_of (n + 32) else c)"

definition toLowerCase :: "string \<Rightarrow> string" where
  "toLowerCase s = map lowerChar s"

subsection \<open>\<^verbatim>\<open>Number(string)\<close>\<close>

text \<open>
  The conversion of a string to a number (StringToNumber): white space is trimmed; the
  empty string is 0; otherwise the text must be a whole StrNumericLiteral, that is an
  optionally signed decimal literal (digits, an optional fraction, an optional exponent,
  or \<^verbatim>\<open>Infinity\<close>) or an unsigned binary, octal or hexadecimal integer literal; anything
  else is NaN. The mathematical value of the literal is rounded to binary64.
\<close>

definition isDigit :: "char \<Rightarrow> bool" where
  "isDigit c = (48 \<le> (of_char c :: nat) \<and> (of_char c :: nat) \<le> 57)"

definition digitsValue :: "nat \<Rightarrow> string \<Rightarrow> nat" where
  "digitsValue base ds = foldl (\<lambda>acc c. acc * base + ((of_char c :: nat) - 48)) 0 ds"

definition pow10 :: "int \<Rightarrow> rat" where
  "pow10 e = (if 0 \<le> e then 10 ^ nat e else 1 / 10 ^ nat (- e))"

text \<open>ExponentPart: \<^verbatim>\<open>e\<close> or \<^verbatim>\<open>E\<close>, an optional sign, at least one digit; or nothing.\<close>

definition exponentPart :: "string \<Rightarrow> int option" where
  "exponentPart s =
     (case s of
        [] \<Rightarrow> Some 0
      | c # r \<Rightarrow>
          if c = CHR ''e'' \<or> c = CHR ''E'' then
            (case r of
               [] \<Rightarrow> None
             | d # r' \<Rightarrow>
                 if d = CHR ''+'' \<or> d = CHR ''-'' then
                   (if r' \<noteq> [] \<and> list_all isDigit r'
                    then Some ((if d = CHR ''-'' then - 1 else 1) * int (digitsValue 10 r'))
                    else None)
                 else if list_all isDigit r then Some (int (digitsValue 10 r))
                 else None)
          else None)"

text \<open>StrUnsignedDecimalLiteral without \<^verbatim>\<open>Infinity\<close>: its exact value.\<close>

definition unsignedDecimal :: "string \<Rightarrow> rat option" where
  "unsignedDecimal s =
     (let ip = takeWhile isDigit s; r = dropWhile isDigit s
      in case r of
           [] \<Rightarrow> if ip = [] then None else Some (of_nat (digitsValue 10 ip))
         | c # r' \<Rightarrow>
             if c = CHR ''.'' then
               (let fp = takeWhile isDigit r'; r'' = dropWhile isDigit r'
                in if ip = [] \<and> fp = [] then None
                   else (case exponentPart r'' of
                           None \<Rightarrow> None
                         | Some e \<Rightarrow>
                             Some ((of_nat (digitsValue 10 ip)
                                    + of_nat (digitsValue 10 fp) * pow10 (- int (length fp)))
                                   * pow10 e)))
             else if ip = [] then None
             else (case exponentPart r of
                     None \<Rightarrow> None
                   | Some e \<Rightarrow> Some (of_nat (digitsValue 10 ip) * pow10 e)))"

definition hexDigitValue :: "char \<Rightarrow> nat option" where
  "hexDigitValue c =
     (let n = (of_char c :: nat)
      in if 48 \<le> n \<and> n \<le> 57 then Some (n - 48)
         else if 97 \<le> n \<and> n \<le> 102 then Some (n - 87)
         else if 65 \<le> n \<and> n \<le> 70 then Some (n - 55)
         else None)"

text \<open>The digits of a NonDecimalIntegerLiteral in the given base, all below the base.\<close>

definition radixDigits :: "nat \<Rightarrow> string \<Rightarrow> rat option" where
  "radixDigits base ds =
     (if ds \<noteq> [] \<and> list_all (\<lambda>c. case hexDigitValue c of None \<Rightarrow> False | Some v \<Rightarrow> v < base) ds
      then Some (of_nat (foldl (\<lambda>acc c. acc * base + the (hexDigitValue c)) 0 ds))
      else None)"

definition nonDecimalInteger :: "string \<Rightarrow> rat option" where
  "nonDecimalInteger s =
     (case s of
        z # x # ds \<Rightarrow>
          if z \<noteq> CHR ''0'' then None
          else if x = CHR ''x'' \<or> x = CHR ''X'' then radixDigits 16 ds
          else if x = CHR ''o'' \<or> x = CHR ''O'' then radixDigits 8 ds
          else if x = CHR ''b'' \<or> x = CHR ''B'' then radixDigits 2 ds
          else None
      | _ \<Rightarrow> None)"

definition strNumericLiteral :: "string \<Rightarrow> number" where
  "strNumericLiteral s =
     (case nonDecimalInteger s of
        Some v \<Rightarrow> fl v
      | None \<Rightarrow>
          (let neg = (s \<noteq> [] \<and> hd s = CHR ''-'');
               u = (if s \<noteq> [] \<and> (hd s = CHR ''+'' \<or> hd s = CHR ''-'') then tl s else s)
           in if u = ''Infinity'' then (if neg then NegInf else PosInf)
              else (case unsignedDecimal u of
                      None \<Rightarrow> NaN
                    | Some v \<Rightarrow> fl (if neg then - v else v))))"

definition stringToNumber :: "string \<Rightarrow> number" where
  "stringToNumber s = (let t = trim s in if t = [] then Fin 0 else strNumericLiteral t)"

subsection \<open>\<^verbatim>\<open>String(number)\<close>\<close>

text \<open>
  The conversion of a number to a string (Number::toString, radix 10): the shortest
  decimal digit string \<open>s\<close> of \<open>k\<close> digits with an exponent \<open>n\<close> such that
  \<open>s \<times> 10\<^sup>n\<^sup>-\<^sup>k\<close> rounds to the number, the candidate nearest to the number when two
  digit strings of that length do; then the layout rules of the language.
\<close>

function natDigits :: "nat \<Rightarrow> string" where
  "natDigits n =
     (if n < 10 then [char_of (48 + n)] else natDigits (n div 10) @ [char_of (48 + n mod 10)])"
  by pat_completeness auto
termination
  by (relation "measure id") auto

declare natDigits.simps [simp del]

text \<open>For \<open>0 < x\<close>, the \<open>n\<close> with \<open>10\<^sup>n\<^sup>-\<^sup>1 \<le> x < 10\<^sup>n\<close>, searched from an estimate.\<close>

fun decimalExponentFrom :: "nat \<Rightarrow> int \<Rightarrow> rat \<Rightarrow> int" where
  "decimalExponentFrom 0 n x = n"
| "decimalExponentFrom (Suc fuel) n x =
     (if x < pow10 (n - 1) then decimalExponentFrom fuel (n - 1) x
      else if pow10 n \<le> x then decimalExponentFrom fuel (n + 1) x
      else n)"

definition decimalExponent :: "rat \<Rightarrow> int" where
  "decimalExponent x = decimalExponentFrom 8 ((binaryExponent x * 30103) div 100000) x"

text \<open>
  The candidates with \<open>k\<close> digits: the two \<open>k\<close>-digit integers around \<open>x / 10\<^sup>n\<^sup>-\<^sup>k\<close>, each
  with its exponent, kept when they round to \<open>x\<close>; the nearer one first.
\<close>

definition digitCandidates :: "rat \<Rightarrow> int \<Rightarrow> nat \<Rightarrow> (nat \<times> int) list" where
  "digitCandidates x n k =
     (let x' = x * pow10 (int k - n);
          lo = nat \<lfloor>x'\<rfloor>;
          hi = (if of_nat lo = x' then lo else lo + 1);
          norm = (\<lambda>s. if s = 10 ^ k then (10 ^ (k - 1), n + 1) else (s, n));
          ok = (\<lambda>(s, m). 10 ^ (k - 1) \<le> s \<and> fl (of_nat s * pow10 (m - int k)) = Fin x);
          near = (if x' - of_nat lo \<le> of_nat hi - x' then [lo, hi] else [hi, lo])
      in filter ok (map norm (remdups near)))"

fun shortestDigits :: "nat \<Rightarrow> nat \<Rightarrow> rat \<Rightarrow> int \<Rightarrow> (nat \<times> nat \<times> int)" where
  "shortestDigits 0 k x n = (k, nat \<lfloor>x * pow10 (int k - n)\<rfloor>, n)"
| "shortestDigits (Suc fuel) k x n =
     (case digitCandidates x n k of
        (s, m) # _ \<Rightarrow> (k, s, m)
      | [] \<Rightarrow> shortestDigits fuel (Suc k) x n)"

definition layoutDigits :: "nat \<Rightarrow> string \<Rightarrow> int \<Rightarrow> string" where
  "layoutDigits k ds n =
     (if int k \<le> n \<and> n \<le> 21 then ds @ replicate (nat (n - int k)) (CHR ''0'')
      else if 0 < n \<and> n \<le> 21 then take (nat n) ds @ ''.'' @ drop (nat n) ds
      else if - 6 < n \<and> n \<le> 0 then ''0.'' @ replicate (nat (- n)) (CHR ''0'') @ ds
      else (let e = n - 1;
                ex = (if e < 0 then ''-'' else ''+'') @ natDigits (nat \<bar>e\<bar>)
            in if k = 1 then ds @ ''e'' @ ex
               else take 1 ds @ ''.'' @ drop 1 ds @ ''e'' @ ex))"

definition positiveToString :: "rat \<Rightarrow> string" where
  "positiveToString x =
     (let (k, s, n) = shortestDigits 17 1 x (decimalExponent x)
      in layoutDigits k (natDigits s) n)"

fun numberToString :: "number \<Rightarrow> string" where
  "numberToString NaN = ''NaN''"
| "numberToString PosInf = ''Infinity''"
| "numberToString NegInf = ''-Infinity''"
| "numberToString (Fin x) =
     (if x = 0 then ''0''
      else if x < 0 then ''-'' @ positiveToString (- x)
      else positiveToString x)"

subsection \<open>Conversions of a cell\<close>

text \<open>\<^verbatim>\<open>Number(x)\<close>, \<^verbatim>\<open>String(x)\<close> and the truth value of \<open>x\<close> in \<^verbatim>\<open>x || y\<close>.\<close>

fun toNumber :: "cell \<Rightarrow> number" where
  "toNumber Null = Fin 0"
| "toNumber Undefined = NaN"
| "toNumber (Bool b) = (if b then Fin 1 else Fin 0)"
| "toNumber (Num n) = n"
| "toNumber (Str s) = stringToNumber s"

fun toString :: "cell \<Rightarrow> string" where
  "toString Null = ''null''"
| "toString Undefined = ''undefined''"
| "toString (Bool b) = (if b then ''true'' else ''false'')"
| "toString (Num n) = numberToString n"
| "toString (Str s) = s"

fun truthy :: "cell \<Rightarrow> bool" where
  "truthy Null = False"
| "truthy Undefined = False"
| "truthy (Bool b) = b"
| "truthy (Num n) = (n \<noteq> NaN \<and> n \<noteq> Fin 0)"
| "truthy (Str s) = (s \<noteq> [])"

subsection \<open>\<^verbatim>\<open>isCellMissing\<close>\<close>

text \<open>
  \<^verbatim>\<open>
  const isCellMissing = (cell: any): boolean => {
    return (
      cell === null || cell === undefined || cell === "" ||
      (typeof cell === "string" && cell.trim() === "") ||
      (typeof cell === "string" &&
        ["na", "n/a", "null", "-", "nan"].includes(cell.trim().toLowerCase()))
    );
  };
  \<close>
\<close>

definition sentinels :: "string list" where
  "sentinels = [''na'', ''n/a'', ''null'', ''-'', ''nan'']"

fun isString :: "cell \<Rightarrow> bool" where
  "isString (Str s) = True"
| "isString _ = False"

fun strOf :: "cell \<Rightarrow> string" where
  "strOf (Str s) = s"
| "strOf _ = []"

definition isCellMissing :: "cell \<Rightarrow> bool" where
  "isCellMissing cell =
     (cell = Null \<or> cell = Undefined \<or> cell = Str ''''
      \<or> (isString cell \<and> trim (strOf cell) = '''')
      \<or> (isString cell \<and> toLowerCase (trim (strOf cell)) \<in> set sentinels))"

subsection \<open>\<^verbatim>\<open>calculateStatistic\<close>\<close>

text \<open>
  \<^verbatim>\<open>
  const calculateStatistic = (values: number[], method: string): number => {
    switch (method) {
      case "mean":
        return values.reduce((a, b) => a + b, 0) / values.length;
      case "median": {
        const sorted = [...values].sort((a, b) => a - b);
        const mid = Math.floor(sorted.length / 2);
        return sorted.length % 2 ? sorted[mid] : (sorted[mid - 1] + sorted[mid]) / 2;
      }
      case "min": return Math.min(...values);
      case "max": return Math.max(...values);
      default: return 0;
    }
  };
  \<close>
  An element read outside the array is \<open>undefined\<close>, which is NaN in the sum.
\<close>

definition numAt :: "number list \<Rightarrow> int \<Rightarrow> number" where
  "numAt xs i = (if 0 \<le> i \<and> i < int (length xs) then xs ! nat i else NaN)"

definition calculateStatistic :: "number list \<Rightarrow> string \<Rightarrow> number" where
  "calculateStatistic values method =
     (if method = ''mean'' then fdiv (foldl fadd (Fin 0) values) (ofNat (length values))
      else if method = ''median'' then
        (let sorted = sortWith fsub values;
             mid = int (length sorted div 2)
         in if length sorted mod 2 \<noteq> 0 then numAt sorted mid
            else fdiv (fadd (numAt sorted (mid - 1)) (numAt sorted mid)) (Fin 2))
      else if method = ''min'' then mathMin values
      else if method = ''max'' then mathMax values
      else Fin 0)"

subsection \<open>\<^verbatim>\<open>calculateMode\<close>\<close>

text \<open>
  \<^verbatim>\<open>
  const calculateMode = (values: (string | number)[]): string | number => {
    const frequency: Record<string, number> = {};
    for (const val of values) {
      const key = String(val);
      frequency[key] = (frequency[key] || 0) + 1;
    }
    const modeEntry = Object.entries(frequency).sort((a, b) => b[1] - a[1])[0];
    if (!modeEntry) return "";
    const numVal = Number(modeEntry[0]);
    return !isNaN(numVal) ? numVal : modeEntry[0];
  };
  \<close>
  The frequency object is the list of its own properties in creation order.
  \<^verbatim>\<open>Object.entries\<close> lists the properties whose key is an array index (a canonical
  decimal integer up to \<open>2\<^sup>3\<^sup>2 - 2\<close>) first, in ascending numeric order, and the other
  properties after them, in creation order. The keys covered are those that are not the
  name of a property inherited from \<^verbatim>\<open>Object.prototype\<close> (see \<open>objectPrototypeNames\<close>): for
  such a key the first read \<^verbatim>\<open>frequency[key]\<close> finds the inherited function.
\<close>

definition objectPrototypeNames :: "string list" where
  "objectPrototypeNames =
     [''constructor'', ''hasOwnProperty'', ''isPrototypeOf'', ''propertyIsEnumerable'',
      ''toLocaleString'', ''toString'', ''valueOf'', ''__proto__'', ''__defineGetter__'',
      ''__defineSetter__'', ''__lookupGetter__'', ''__lookupSetter__'']"

definition isArrayIndex :: "string \<Rightarrow> bool" where
  "isArrayIndex key =
     (key \<noteq> [] \<and> list_all isDigit key \<and> (key = ''0'' \<or> hd key \<noteq> CHR ''0'')
      \<and> digitsValue 10 key \<le> 4294967294)"

fun increment :: "string \<Rightarrow> (string \<times> nat) list \<Rightarrow> (string \<times> nat) list" where
  "increment key [] = [(key, 1)]"
| "increment key ((k, c) # rest) =
     (if k = key then (k, c + 1) # rest else (k, c) # increment key rest)"

definition objectEntries :: "(string \<times> nat) list \<Rightarrow> (string \<times> nat) list" where
  "objectEntries obj =
     sort_key (\<lambda>e. digitsValue 10 (fst e)) (filter (\<lambda>e. isArrayIndex (fst e)) obj)
     @ filter (\<lambda>e. \<not> isArrayIndex (fst e)) obj"

definition calculateMode :: "cell list \<Rightarrow> cell" where
  "calculateMode values =
     (let frequency = foldl (\<lambda>freq val. increment (toString val) freq) [] values
      in case sortWith (\<lambda>a b. fsub (ofNat (snd b)) (ofNat (snd a))) (objectEntries frequency) of
           [] \<Rightarrow> Str ''''
         | modeEntry # _ \<Rightarrow>
             (let numVal = stringToNumber (fst modeEntry)
              in if \<not> isNaN numVal then Num numVal else Str (fst modeEntry)))"

subsection \<open>Well-formed numbers\<close>





subsection \<open>The mode, stated on the list of keys\<close>

text \<open>
  The keys of a list in the order of their first occurrence, and the order in which
  \<^verbatim>\<open>Object.entries\<close> lists them: array indices ascending, then the other keys by first
  occurrence.
\<close>

definition firstOccurrences :: "'a list \<Rightarrow> 'a list" where
  "firstOccurrences xs = rev (remdups (rev xs))"

definition enumerationOrder :: "string list \<Rightarrow> string list" where
  "enumerationOrder keys =
     sort_key (digitsValue 10) (filter isArrayIndex (firstOccurrences keys))
     @ filter (\<lambda>k. \<not> isArrayIndex k) (firstOccurrences keys)"

definition mostFrequent :: "string list \<Rightarrow> string \<Rightarrow> bool" where
  "mostFrequent keys k = (\<forall>k'\<in>set keys. count_list keys k' \<le> count_list keys k)"

text \<open>The first most frequent key in enumeration order.\<close>

definition modeKey :: "string list \<Rightarrow> string" where
  "modeKey keys = hd (filter (mostFrequent keys) (enumerationOrder keys))"

text \<open>
  The tie-break as the specification words it, for comparison: the first most frequent
  key in the order of first occurrence.
\<close>

definition modeKeyFirstEncountered :: "string list \<Rightarrow> string" where
  "modeKeyFirstEncountered keys = hd (filter (mostFrequent keys) (firstOccurrences keys))"

text \<open>The result for a winning key: its number when it converts to one, else the key.\<close>

definition keyResult :: "string \<Rightarrow> cell" where
  "keyResult k = (if \<not> isNaN (stringToNumber k) then Num (stringToNumber k) else Str k)"

subsection \<open>Tables, settings and the store\<close>

text \<open>
  \<^verbatim>\<open>{ headers: string[]; rows: any[][] }\<close>. A read \<^verbatim>\<open>row[i]\<close> past the end of the row is
  \<open>undefined\<close>; a write \<^verbatim>\<open>row[i] = v\<close> past the end extends the row, and the positions in
  between read as \<open>undefined\<close>.
\<close>

record table =
  headers :: "string list"
  rows :: "cell list list"

definition cellAt :: "cell list \<Rightarrow> nat \<Rightarrow> cell" where
  "cellAt row i = (if i < length row then row ! i else Undefined)"

definition setCell :: "cell list \<Rightarrow> nat \<Rightarrow> cell \<Rightarrow> cell list" where
  "setCell row i v =
     (if i < length row then row[i := v]
      else row @ replicate (i - length row) Undefined @ [v])"

text \<open>\<^verbatim>\<open>headers.indexOf(column)\<close>: the first position, \<open>None\<close> for \<open>-1\<close>.\<close>

fun indexOf :: "string list \<Rightarrow> string \<Rightarrow> nat option" where
  "indexOf [] x = None"
| "indexOf (h # hs) x = (if h = x then Some 0 else map_option Suc (indexOf hs x))"

text \<open>
  An entry of the settings object,
  \<^verbatim>\<open>{ strategy: string; value?: string | number }\<close>; \<open>settingValue\<close> is \<open>Undefined\<close> when
  \<^verbatim>\<open>value\<close> is absent. \<open>NullSetting\<close> is a malformed entry, \<open>null\<close> in place of the object.
  The strategy is compared with the three strategy names only, so any other strategy
  leaves the table as it is.
  The settings are the list of the entries in the order of \<^verbatim>\<open>Object.keys(settings)\<close>.
\<close>

datatype columnSetting = NullSetting | ColumnSetting (strategy: string) (settingValue: cell)

type_synonym settings = "(string \<times> columnSetting) list"

text \<open>
  What a \<^verbatim>\<open>throw\<close> carries: the \<^verbatim>\<open>message\<close> of the error object. Reading \<^verbatim>\<open>.strategy\<close> of
  \<open>null\<close> throws a TypeError whose text is the engine's.
\<close>

datatype thrown = TypeError (message: string)

definition nullReadMessage :: string where
  "nullReadMessage = ''Cannot read properties of null (reading strategy)''"

text \<open>
  The caller's callbacks \<^verbatim>\<open>onProgress\<close>, \<^verbatim>\<open>onComplete\<close> and \<^verbatim>\<open>onError\<close> are observers:
  the model records each call, in order.
\<close>

datatype event = Progress number | Complete | Error string

text \<open>
  \<^verbatim>\<open>JSON.parse(JSON.stringify(rows))\<close> on a cell: \<open>undefined\<close>, NaN and the infinities become
  \<open>null\<close>; every other primitive comes back as it was.
\<close>

fun jsonCell :: "cell \<Rightarrow> cell" where
  "jsonCell Undefined = Null"
| "jsonCell (Num NaN) = Null"
| "jsonCell (Num PosInf) = Null"
| "jsonCell (Num NegInf) = Null"
| "jsonCell c = c"

text \<open>The fields of the store that the cleaning actions read and write.\<close>

record profile =
  profileProcessedData :: "table option"
  profileCleanedData :: "table option"

record store =
  profiles :: "string \<rightharpoonup> profile"
  activeProfileId :: "string option"
  isLoading :: bool
  error :: "string option"
  rawData :: "table option"
  processedData :: "table option"
  cleanedData :: "table option"

subsection \<open>\<^verbatim>\<open>processMissingValues\<close>\<close>

text \<open>
  The quantities computed for a column before its strategy is applied:
  \<^verbatim>\<open>
  const missingCount = currentData.rows.filter((row) => isCellMissing(row[colIndex])).length;
  const totalRows = currentData.rows.length;
  const missingPercentage = totalRows > 0 ? (missingCount / totalRows) * 100 : 0;
  \<close>
  and, for the strategy \<open>drop\<close>,
  \<^verbatim>\<open>const threshold = Number(columnSetting.value) || 50;\<close>
\<close>

definition missingCount :: "cell list list \<Rightarrow> nat \<Rightarrow> nat" where
  "missingCount rs colIndex = length (filter (\<lambda>row. isCellMissing (cellAt row colIndex)) rs)"

definition missingPercentage :: "cell list list \<Rightarrow> nat \<Rightarrow> number" where
  "missingPercentage rs colIndex =
     (if 0 < length rs
      then fmul (fdiv (ofNat (missingCount rs colIndex)) (ofNat (length rs))) (Fin 100)
      else Fin 0)"

definition threshold :: "cell \<Rightarrow> number" where
  "threshold v = (if truthy (Num (toNumber v)) then toNumber v else Fin 50)"

text \<open>
  The strategy \<open>fill-value\<close>:
  \<^verbatim>\<open>
  const rawValue = columnSetting.value ?? "";
  const numericValue = Number(rawValue);
  const fillValue = !isNaN(numericValue) ? numericValue : rawValue;
  \<close>
\<close>

definition fillValue :: "cell \<Rightarrow> cell" where
  "fillValue v =
     (let rawValue = (if v = Null \<or> v = Undefined then Str '''' else v);
          numericValue = toNumber rawValue
      in if \<not> isNaN numericValue then Num numericValue else rawValue)"

text \<open>
  The strategy \<open>fill-method\<close>:
  \<^verbatim>\<open>
  const method = String(columnSetting.value || "mode");
  const nonMissingValues = [];  const numericValues = [];
  currentData.rows.forEach((row) => {
    const cell = row[colIndex];
    if (!isCellMissing(cell)) {
      nonMissingValues.push(cell);
      const num = Number(cell);
      if (!isNaN(num)) numericValues.push(num);
    }
  });
  let replacementValue: any = "";
  if (method === "mode" || numericValues.length === 0) {
    replacementValue = calculateMode(nonMissingValues);
  } else if (numericValues.length > 0) {
    replacementValue = calculateStatistic(numericValues, method);
  }
  \<close>
\<close>

definition replacementValue :: "cell list list \<Rightarrow> nat \<Rightarrow> cell \<Rightarrow> cell" where
  "replacementValue rs colIndex v =
     (let method = toString (if truthy v then v else Str ''mode'');
          nonMissingValues =
            filter (\<lambda>cell. \<not> isCellMissing cell) (map (\<lambda>row. cellAt row colIndex) rs);
          numericValues = filter (\<lambda>num. \<not> isNaN num) (map toNumber nonMissingValues)
      in if method = ''mode'' \<or> length numericValues = 0 then calculateMode nonMissingValues
         else if 0 < length numericValues then Num (calculateStatistic numericValues method)
         else Str '''')"

text \<open>
  The replacement of the missing cells of a column, shared by the two fill strategies:
  \<^verbatim>\<open>
  currentData.rows = currentData.rows.map((row) => {
    const newRow = [...row];
    if (isCellMissing(row[colIndex])) { newRow[colIndex] = fillValue; }
    return newRow;
  });
  \<close>
\<close>

definition fillRow :: "nat \<Rightarrow> cell \<Rightarrow> cell list \<Rightarrow> cell list" where
  "fillRow colIndex v row =
     (let newRow = row
      in if isCellMissing (cellAt row colIndex) then setCell newRow colIndex v else newRow)"

text \<open>
  One pass of the loop body after the progress report: the column is looked up, skipped
  when it is not a header, and otherwise treated by its strategy. Reading the strategy of
  a malformed entry throws.
\<close>

definition processColumn :: "table \<Rightarrow> string \<times> columnSetting \<Rightarrow> thrown + table" where
  "processColumn currentData entry =
     (case indexOf (headers currentData) (fst entry) of
        None \<Rightarrow> Inr currentData
      | Some colIndex \<Rightarrow>
          (case snd entry of
             NullSetting \<Rightarrow> Inl (TypeError nullReadMessage)
           | ColumnSetting strat v \<Rightarrow>
               if strat = ''drop'' then
                 (if fle (missingPercentage (rows currentData) colIndex) (threshold v)
                  then Inr (currentData\<lparr>rows :=
                         filter (\<lambda>row. \<not> isCellMissing (cellAt row colIndex)) (rows currentData)\<rparr>)
                  else Inr currentData)
               else if strat = ''fill-value'' then
                 Inr (currentData\<lparr>rows := map (fillRow colIndex (fillValue v)) (rows currentData)\<rparr>)
               else if strat = ''fill-method'' then
                 Inr (currentData\<lparr>rows :=
                        map (fillRow colIndex (replacementValue (rows currentData) colIndex v))
                          (rows currentData)\<rparr>)
               else Inr currentData))"

text \<open>
  The loop over \<^verbatim>\<open>Object.keys(settings)\<close>, with the progress report
  \<^verbatim>\<open>onProgress(Math.round((currentStep / totalSteps) * 100))\<close> at the head of each pass. It
  returns the calls made and either the working table or what was thrown.
\<close>

definition progressOf :: "nat \<Rightarrow> nat \<Rightarrow> number" where
  "progressOf currentStep totalSteps =
     mathRound (fmul (fdiv (ofNat currentStep) (ofNat totalSteps)) (Fin 100))"

fun processColumns :: "nat \<Rightarrow> nat \<Rightarrow> settings \<Rightarrow> table \<Rightarrow> event list \<times> (thrown + table)" where
  "processColumns currentStep totalSteps [] currentData = ([], Inr currentData)"
| "processColumns currentStep totalSteps (entry # entries) currentData =
     (case processColumn currentData entry of
        Inl e \<Rightarrow> ([Progress (progressOf (currentStep + 1) totalSteps)], Inl e)
      | Inr t \<Rightarrow>
          (let (evs, r) = processColumns (currentStep + 1) totalSteps entries t
           in (Progress (progressOf (currentStep + 1) totalSteps) # evs, r)))"

text \<open>
  The action itself: the source is \<^verbatim>\<open>cleanedData || processedData\<close>, else \<^verbatim>\<open>rawData\<close>; without
  one the error is set and reported. Otherwise the copy is processed inside \<^verbatim>\<open>try\<close>; the
  result is committed to \<^verbatim>\<open>cleanedData\<close> after the loop, and a throw ends in \<^verbatim>\<open>catch\<close>,
  which sets and reports \<^verbatim>\<open>error.message || "Failed to process missing values"\<close>.
\<close>

definition sourceData :: "store \<Rightarrow> table option" where
  "sourceData s =
     (case (case cleanedData s of Some t \<Rightarrow> Some t | None \<Rightarrow> processedData s) of
        Some t \<Rightarrow> Some t
      | None \<Rightarrow> rawData s)"

definition deepCopy :: "table \<Rightarrow> table" where
  "deepCopy src = \<lparr>headers = headers src, rows = map (map jsonCell) (rows src)\<rparr>"

definition processMissingValues :: "settings \<Rightarrow> store \<Rightarrow> store \<times> event list" where
  "processMissingValues settings s =
     (case sourceData s of
        None \<Rightarrow>
          (s\<lparr>error := Some ''No data available for processing''\<rparr>,
           [Error ''No data available for processing''])
      | Some src \<Rightarrow>
          (let s1 = s\<lparr>isLoading := True, error := None\<rparr>;
               (evs, r) = processColumns 0 (length settings) settings (deepCopy src)
           in case r of
                Inr currentData \<Rightarrow>
                  (s1\<lparr>cleanedData := Some currentData, isLoading := False\<rparr>,
                   evs @ [Progress (Fin 100), Complete])
              | Inl e \<Rightarrow>
                  (let errorMessage =
                         (if message e \<noteq> [] then message e
                          else ''Failed to process missing values'')
                   in (s1\<lparr>error := Some errorMessage, isLoading := False\<rparr>,
                       evs @ [Error errorMessage]))))"

subsection \<open>\<^verbatim>\<open>removeDuplicates\<close> and \<^verbatim>\<open>removeOutliers\<close>\<close>

text \<open>
  \<^verbatim>\<open>
  removeDuplicates: (indices) => {
    const { profiles, activeProfileId } = get();
    const currentProfile = activeProfileId ? profiles.get(activeProfileId) : null;
    if (!currentProfile) return;
    const data = currentProfile.cleanedData || currentProfile.processedData;
    if (!data) return;
    const newRows = data.rows.filter((_, index) => !indices.includes(index));
    const newCleanedData = { headers: data.headers, rows: newRows };
    set((state) => { ... profile.cleanedData = newCleanedData;
      return { profiles: newProfiles, cleanedData: newCleanedData }; });
  }
  \<close>
  \<^verbatim>\<open>removeOutliers\<close> has the same body. An empty profile id is falsy, as \<open>null\<close> is.
\<close>

definition removeRows :: "table \<Rightarrow> nat list \<Rightarrow> table" where
  "removeRows data indices =
     \<lparr>headers = headers data,
      rows = map snd (filter (\<lambda>(index, row). index \<notin> set indices)
                        (zip [0..<length (rows data)] (rows data)))\<rparr>"

definition currentProfile :: "store \<Rightarrow> profile option" where
  "currentProfile s =
     (case activeProfileId s of
        None \<Rightarrow> None
      | Some pid \<Rightarrow> if pid = [] then None else profiles s pid)"

definition profileData :: "profile \<Rightarrow> table option" where
  "profileData p =
     (case profileCleanedData p of Some t \<Rightarrow> Some t | None \<Rightarrow> profileProcessedData p)"

definition removeDuplicates :: "nat list \<Rightarrow> store \<Rightarrow> store" where
  "removeDuplicates indices s =
     (case currentProfile s of
        None \<Rightarrow> s
      | Some p \<Rightarrow>
          (case profileData p of
             None \<Rightarrow> s
           | Some data \<Rightarrow>
               (let newCleanedData = removeRows data indices
                in s\<lparr>profiles := (profiles s)(the (activeProfileId s) \<mapsto>
                                    p\<lparr>profileCleanedData := Some newCleanedData\<rparr>),
                      cleanedData := Some newCleanedData\<rparr>)))"

definition removeOutliers :: "nat list \<Rightarrow> store \<Rightarrow> store" where
  "removeOutliers indices s =
     (case currentProfile s of
        None \<Rightarrow> s
      | Some p \<Rightarrow>
          (case profileData p of
             None \<Rightarrow> s
           | Some data \<Rightarrow>
               (let newCleanedData = removeRows data indices
                in s\<lparr>profiles := (profiles s)(the (activeProfileId s) \<mapsto>
                                    p\<lparr>profileCleanedData := Some newCleanedData\<rparr>),
                      cleanedData := Some newCleanedData\<rparr>)))"

subsection \<open>The action on a heap of shared objects\<close>

text \<open>
  To say that the source table is never written, tables are placed in a heap: a table
  object holds the addresses of its \<^verbatim>\<open>headers\<close> array and of its \<^verbatim>\<open>rows\<close> array, the rows
  array holds the addresses of the row arrays, and a row array holds its cells. An
  address is a position in the heap; allocation appends. Every array expression of the
  code that builds a new array (\<^verbatim>\<open>[...a]\<close>, \<^verbatim>\<open>filter\<close>, \<^verbatim>\<open>map\<close>, \<^verbatim>\<open>JSON.parse\<close>) allocates, and
  the two assignments of the code, \<^verbatim>\<open>newRow[colIndex] = v\<close> and \<^verbatim>\<open>currentData.rows = a\<close>,
  write at an address. A read that does not find the kind of object the code expects is
  a throw.
\<close>

datatype obj =
  StringArray "string list"
| CellArray "cell list"
| RefArray "nat list"
| TableObject nat nat

type_synonym heap = "obj list"

definition alloc :: "obj \<Rightarrow> heap \<Rightarrow> nat \<times> heap" where
  "alloc x h = (length h, h @ [x])"

definition readTable :: "heap \<Rightarrow> nat \<Rightarrow> (nat \<times> nat) option" where
  "readTable h a =
     (if a < length h then (case h ! a of TableObject hr rr \<Rightarrow> Some (hr, rr) | _ \<Rightarrow> None)
      else None)"

definition readStrings :: "heap \<Rightarrow> nat \<Rightarrow> string list option" where
  "readStrings h a =
     (if a < length h then (case h ! a of StringArray ss \<Rightarrow> Some ss | _ \<Rightarrow> None) else None)"

definition readRefs :: "heap \<Rightarrow> nat \<Rightarrow> nat list option" where
  "readRefs h a =
     (if a < length h then (case h ! a of RefArray rs \<Rightarrow> Some rs | _ \<Rightarrow> None) else None)"

definition readCells :: "heap \<Rightarrow> nat \<Rightarrow> cell list option" where
  "readCells h a =
     (if a < length h then (case h ! a of CellArray cs \<Rightarrow> Some cs | _ \<Rightarrow> None) else None)"

fun readRows :: "heap \<Rightarrow> nat list \<Rightarrow> cell list list option" where
  "readRows h [] = Some []"
| "readRows h (r # rs) =
     (case readCells h r of
        None \<Rightarrow> None
      | Some cs \<Rightarrow> (case readRows h rs of None \<Rightarrow> None | Some css \<Rightarrow> Some (cs # css)))"

text \<open>The table that an address denotes, when all its parts are in place.\<close>

definition tableAt :: "heap \<Rightarrow> nat \<Rightarrow> table option" where
  "tableAt h a =
     (case readTable h a of
        None \<Rightarrow> None
      | Some (hr, rr) \<Rightarrow>
          (case readStrings h hr of
             None \<Rightarrow> None
           | Some hs \<Rightarrow>
               (case readRefs h rr of
                  None \<Rightarrow> None
                | Some refs \<Rightarrow>
                    (case readRows h refs of
                       None \<Rightarrow> None
                     | Some css \<Rightarrow> Some \<lparr>headers = hs, rows = css\<rparr>))))"

definition readError :: thrown where
  "readError = TypeError ''Cannot read properties of undefined''"

text \<open>Fresh row arrays for the given contents, in order.\<close>

fun allocRows :: "cell list list \<Rightarrow> heap \<Rightarrow> nat list \<times> heap" where
  "allocRows [] h = ([], h)"
| "allocRows (cs # css) h =
     (let (a, h1) = alloc (CellArray cs) h;
          (as, h2) = allocRows css h1
      in (a # as, h2))"

text \<open>
  \<^verbatim>\<open>
  const currentData = {
    headers: [...sourceData.headers],
    rows: JSON.parse(JSON.stringify(sourceData.rows)),
  };
  \<close>
\<close>

definition deepCopyH :: "nat \<Rightarrow> heap \<Rightarrow> heap \<times> (thrown + nat)" where
  "deepCopyH src h =
     (case readTable h src of
        None \<Rightarrow> (h, Inl readError)
      | Some (hr, rr) \<Rightarrow>
          (case readStrings h hr of
             None \<Rightarrow> (h, Inl readError)
           | Some hs \<Rightarrow>
               (case readRefs h rr of
                  None \<Rightarrow> (h, Inl readError)
                | Some refs \<Rightarrow>
                    (case readRows h refs of
                       None \<Rightarrow> (h, Inl readError)
                     | Some css \<Rightarrow>
                         (let (ah, h1) = alloc (StringArray hs) h;
                              (as, h2) = allocRows (map (map jsonCell) css) h1;
                              (ar, h3) = alloc (RefArray as) h2;
                              (cur, h4) = alloc (TableObject ah ar) h3
                          in (h4, Inr cur))))))"

text \<open>
  \<^verbatim>\<open>
  currentData.rows = currentData.rows.map((row) => {
    const newRow = [...row];
    if (isCellMissing(row[colIndex])) { newRow[colIndex] = fillValue; }
    return newRow;
  });
  \<close>
  The copy \<open>newRow\<close> is allocated, then written in place.
\<close>

fun fillRowsH :: "nat \<Rightarrow> cell \<Rightarrow> cell list list \<Rightarrow> heap \<Rightarrow> nat list \<times> heap" where
  "fillRowsH colIndex v [] h = ([], h)"
| "fillRowsH colIndex v (row # rest) h =
     (let (newRow, h1) = alloc (CellArray row) h;
          h2 = (if isCellMissing (cellAt row colIndex)
                then h1[newRow := CellArray (setCell row colIndex v)] else h1);
          (as, h3) = fillRowsH colIndex v rest h2
      in (newRow # as, h3))"

definition fillColumnH :: "nat \<Rightarrow> nat \<Rightarrow> nat \<Rightarrow> cell \<Rightarrow> cell list list \<Rightarrow> heap \<Rightarrow> heap" where
  "fillColumnH cur hr colIndex v css h =
     (let (as, h1) = fillRowsH colIndex v css h;
          (a, h2) = alloc (RefArray as) h1
      in h2[cur := TableObject hr a])"

text \<open>
  \<^verbatim>\<open>currentData.rows = currentData.rows.filter((row) => !isCellMissing(row[colIndex]));\<close>
  The new rows array holds the addresses of the rows that are kept.
\<close>

definition dropRowsH :: "nat \<Rightarrow> nat \<Rightarrow> nat \<Rightarrow> nat list \<Rightarrow> cell list list \<Rightarrow> heap \<Rightarrow> heap" where
  "dropRowsH cur hr colIndex refs css h =
     (let kept = map fst (filter (\<lambda>(r, row). \<not> isCellMissing (cellAt row colIndex)) (zip refs css));
          (a, h1) = alloc (RefArray kept) h
      in h1[cur := TableObject hr a])"

definition processColumnH :: "nat \<Rightarrow> string \<times> columnSetting \<Rightarrow> heap \<Rightarrow> heap \<times> thrown option" where
  "processColumnH cur entry h =
     (case readTable h cur of
        None \<Rightarrow> (h, Some readError)
      | Some (hr, rr) \<Rightarrow>
          (case readStrings h hr of
             None \<Rightarrow> (h, Some readError)
           | Some hs \<Rightarrow>
               (case indexOf hs (fst entry) of
                  None \<Rightarrow> (h, None)
                | Some colIndex \<Rightarrow>
                    (case readRefs h rr of
                       None \<Rightarrow> (h, Some readError)
                     | Some refs \<Rightarrow>
                         (case readRows h refs of
                            None \<Rightarrow> (h, Some readError)
                          | Some css \<Rightarrow>
                              (case snd entry of
                                 NullSetting \<Rightarrow> (h, Some (TypeError nullReadMessage))
                               | ColumnSetting strat v \<Rightarrow>
                                   if strat = ''drop'' then
                                     (if fle (missingPercentage css colIndex) (threshold v)
                                      then (dropRowsH cur hr colIndex refs css h, None)
                                      else (h, None))
                                   else if strat = ''fill-value'' then
                                     (fillColumnH cur hr colIndex (fillValue v) css h, None)
                                   else if strat = ''fill-method'' then
                                     (fillColumnH cur hr colIndex
                                        (replacementValue css colIndex v) css h, None)
                                   else (h, None)))))))"

fun processColumnsH ::
  "nat \<Rightarrow> nat \<Rightarrow> settings \<Rightarrow> nat \<Rightarrow> heap \<Rightarrow> event list \<times> heap \<times> thrown option" where
  "processColumnsH currentStep totalSteps [] cur h = ([], h, None)"
| "processColumnsH currentStep totalSteps (entry # entries) cur h =
     (case processColumnH cur entry h of
        (h1, Some e) \<Rightarrow> ([Progress (progressOf (currentStep + 1) totalSteps)], h1, Some e)
      | (h1, None) \<Rightarrow>
          (let (evs, h2, r) = processColumnsH (currentStep + 1) totalSteps entries cur h1
           in (Progress (progressOf (currentStep + 1) totalSteps) # evs, h2, r)))"

text \<open>
  The store with its tables by address, and the action on it. When only the raw table
  is there, the source is a new object
  \<^verbatim>\<open>{ headers: rawData.headers, rows: rawData.rows }\<close> that shares the arrays of the raw table;
  it is built before \<^verbatim>\<open>try\<close>, so a throw there leaves the action without any effect.
\<close>

record heapStore =
  heap :: heap
  rawDataRef :: "nat option"
  processedDataRef :: "nat option"
  cleanedDataRef :: "nat option"
  isLoadingH :: bool
  errorH :: "string option"

definition sourceDataH :: "heapStore \<Rightarrow> heap \<times> (thrown + nat) option" where
  "sourceDataH s =
     (case (case cleanedDataRef s of Some a \<Rightarrow> Some a | None \<Rightarrow> processedDataRef s) of
        Some a \<Rightarrow> (heap s, Some (Inr a))
      | None \<Rightarrow>
          (case rawDataRef s of
             None \<Rightarrow> (heap s, None)
           | Some raw \<Rightarrow>
               (case readTable (heap s) raw of
                  None \<Rightarrow> (heap s, Some (Inl readError))
                | Some (hr, rr) \<Rightarrow>
                    (let (a, h1) = alloc (TableObject hr rr) (heap s) in (h1, Some (Inr a))))))"

definition catchH :: "heapStore \<Rightarrow> heap \<Rightarrow> event list \<Rightarrow> thrown \<Rightarrow> heapStore \<times> event list" where
  "catchH s h evs e =
     (let errorMessage =
            (if message e \<noteq> [] then message e else ''Failed to process missing values'')
      in (s\<lparr>heap := h, isLoadingH := False, errorH := Some errorMessage\<rparr>,
          evs @ [Error errorMessage]))"

definition processMissingValuesH :: "settings \<Rightarrow> heapStore \<Rightarrow> heapStore \<times> event list" where
  "processMissingValuesH settings s =
     (case sourceDataH s of
        (h0, None) \<Rightarrow>
          (s\<lparr>errorH := Some ''No data available for processing''\<rparr>,
           [Error ''No data available for processing''])
      | (h0, Some (Inl e)) \<Rightarrow> (s, [])
      | (h0, Some (Inr src)) \<Rightarrow>
          (case deepCopyH src h0 of
             (h1, Inl e) \<Rightarrow> catchH s h1 [] e
           | (h1, Inr cur) \<Rightarrow>
               (case processColumnsH 0 (length settings) settings cur h1 of
                  (evs, h2, Some e) \<Rightarrow> catchH s h2 evs e
                | (evs, h2, None) \<Rightarrow>
                    (s\<lparr>heap := h2, cleanedDataRef := Some cur, isLoadingH := False,
                       errorH := None\<rparr>,
                     evs @ [Progress (Fin 100), Complete]))))"

text \<open>
  The store of tables that a heap store denotes, given the profile fields, which the
  action does not touch; and the heap stores whose table addresses all denote tables.
\<close>

definition tableOf :: "heap \<Rightarrow> nat option \<Rightarrow> table option" where
  "tableOf h r = (case r of None \<Rightarrow> None | Some a \<Rightarrow> tableAt h a)"

definition storeOf :: "(string \<rightharpoonup> profile) \<Rightarrow> string option \<Rightarrow> heapStore \<Rightarrow> store" where
  "storeOf ps active s =
     \<lparr>profiles = ps, activeProfileId = active, isLoading = isLoadingH s, error = errorH s,
      rawData = tableOf (heap s) (rawDataRef s),
      processedData = tableOf (heap s) (processedDataRef s),
      cleanedData = tableOf (heap s) (cleanedDataRef s)\<rparr>"

definition denotesTable :: "heap \<Rightarrow> nat option \<Rightarrow> bool" where
  "denotesTable h r = (case r of None \<Rightarrow> True | Some a \<Rightarrow> tableAt h a \<noteq> None)"

definition wellFormed :: "heapStore \<Rightarrow> bool" where
  "wellFormed s =
     (denotesTable (heap s) (rawDataRef s) \<and> denotesTable (heap s) (processedDataRef s)
      \<and> denotesTable (heap s) (cleanedDataRef s))"

section \<open>Properties\<close>

subsection \<open>Rounding to binary64\<close>

lemma bitLength_pos: "0 < n \<Longrightarrow> 0 < bitLength n"
  by (subst bitLength.simps) simp

lemma bitLength_bounds:
  "0 < n \<Longrightarrow> 2 ^ (bitLength n - 1) \<le> n \<and> n < 2 ^ bitLength n"
proof (induction n rule: bitLength.induct)
  case (1 n)
  show ?case
  proof (cases "n div 2 = 0")
    case True
    with "1.prems" have n1: "n = 1" by presburger
    have "bitLength 1 = 1"
      by (subst bitLength.simps, subst bitLength.simps) simp
    with n1 show ?thesis by simp
  next
    case False
    with "1.prems" have p: "0 < n div 2" by presburger
    from "1.prems" have nn: "\<not> n \<le> 0" by simp
    from "1.IH" [OF nn p]
    have ih: "2 ^ (bitLength (n div 2) - 1) \<le> n div 2" "n div 2 < 2 ^ bitLength (n div 2)"
      by simp_all
    have bl: "bitLength n = Suc (bitLength (n div 2))"
      using "1.prems" by (subst bitLength.simps) simp
    from bitLength_pos [OF p] obtain k where k: "bitLength (n div 2) = Suc k"
      by (cases "bitLength (n div 2)") auto
    from ih k have a: "2 * 2 ^ k \<le> 2 * (n div 2)" by simp
    have b: "2 * (n div 2) \<le> n" by presburger
    from ih(2) have "n div 2 + 1 \<le> 2 ^ bitLength (n div 2)" by simp
    then have c: "2 * (n div 2) + 2 \<le> 2 * 2 ^ bitLength (n div 2)" by simp
    have d: "n < 2 * (n div 2) + 2" by presburger
    from a b c d show ?thesis by (simp add: bl k)
  qed
qed

lemma pow2_pos: "0 < pow2 e"
  by (simp add: pow2_def)

lemma pow2_add: "pow2 (a + b) = pow2 a * pow2 b"
proof -
  have "pow2 e = 2 powi e" for e
    by (simp add: pow2_def power_int_def inverse_eq_divide power_one_over)
  then show ?thesis by (simp add: power_int_add)
qed

lemma pow2_nat: "pow2 (int n) = 2 ^ n"
  by (simp add: pow2_def)

lemma pow2_mono: "a \<le> b \<Longrightarrow> pow2 a \<le> pow2 b"
proof -
  assume "a \<le> b"
  then obtain k where b: "b = a + int k" using zle_iff_zadd by auto
  have "1 \<le> pow2 (int k)" by (simp add: pow2_nat)
  then have "pow2 a * 1 \<le> pow2 a * pow2 (int k)"
    using pow2_pos [of a] by (intro mult_left_mono) auto
  then show ?thesis by (simp add: b pow2_add)
qed

lemma pow2_diff: "pow2 (a - b) = pow2 a / pow2 b"
proof -
  have "pow2 a = pow2 (a - b) * pow2 b" using pow2_add [of "a - b" b] by simp
  then show ?thesis using pow2_pos [of b] by simp
qed

lemma binaryExponent_bounds:
  assumes "0 < x"
  shows "pow2 (binaryExponent x) \<le> x \<and> x < pow2 (binaryExponent x + 1)"
proof -
  obtain a b where q: "quotient_of x = (a, b)" by (cases "quotient_of x")
  then have x: "x = of_int a / of_int b" and b: "0 < b"
    by (simp_all add: quotient_of_div quotient_of_denom_pos)
  with assms have a: "0 < a" by (simp add: zero_less_divide_iff)
  define la where "la = bitLength a"
  define lb where "lb = bitLength b"
  from bitLength_bounds [OF a] have a1: "2 ^ (la - 1) \<le> a" and a2: "a < 2 ^ la"
    by (simp_all add: la_def)
  from bitLength_bounds [OF b] have b1: "2 ^ (lb - 1) \<le> b" and b2: "b < 2 ^ lb"
    by (simp_all add: lb_def)
  have lap: "0 < la" and lbp: "0 < lb"
    using bitLength_pos a b by (simp_all add: la_def lb_def)
  have ra1: "pow2 (int la - 1) \<le> of_int a"
  proof -
    have "pow2 (int la - 1) = pow2 (int (la - 1))" using lap by (simp add: of_nat_diff)
    also have "\<dots> = of_int (2 ^ (la - 1))" by (simp add: pow2_nat)
    also have "\<dots> \<le> of_int a" using a1 by (simp only: of_int_le_iff)
    finally show ?thesis .
  qed
  have ra2: "of_int a < pow2 (int la)"
  proof -
    have "(of_int a :: rat) < of_int (2 ^ la)" using a2 by (simp only: of_int_less_iff)
    then show ?thesis by (simp add: pow2_nat)
  qed
  have rb1: "pow2 (int lb - 1) \<le> of_int b"
  proof -
    have "pow2 (int lb - 1) = pow2 (int (lb - 1))" using lbp by (simp add: of_nat_diff)
    also have "\<dots> = of_int (2 ^ (lb - 1))" by (simp add: pow2_nat)
    also have "\<dots> \<le> of_int b" using b1 by (simp only: of_int_le_iff)
    finally show ?thesis .
  qed
  have rb2: "of_int b < pow2 (int lb)"
  proof -
    have "(of_int b :: rat) < of_int (2 ^ lb)" using b2 by (simp only: of_int_less_iff)
    then show ?thesis by (simp add: pow2_nat)
  qed
  have bp: "(0::rat) < of_int b" using b by simp
  have ap: "(0::rat) < of_int a" using a by simp
  define e0 where "e0 = int la - int lb"
  have lo: "pow2 (e0 - 1) \<le> x"
  proof -
    have "pow2 (e0 - 1) * of_int b \<le> pow2 (e0 - 1) * pow2 (int lb)"
      using rb2 pow2_pos [of "e0 - 1"] by (intro mult_left_mono) auto
    also have "\<dots> = pow2 (int la - 1)"
      by (simp add: pow2_add [symmetric] e0_def)
    also have "\<dots> \<le> of_int a" by (rule ra1)
    finally show ?thesis using bp by (simp add: x pos_le_divide_eq)
  qed
  have hi: "x < pow2 (e0 + 1)"
  proof -
    have "of_int a < pow2 (int la)" by (rule ra2)
    also have "\<dots> = pow2 (e0 + 1) * pow2 (int lb - 1)"
      by (simp add: pow2_add [symmetric] e0_def)
    also have "\<dots> \<le> pow2 (e0 + 1) * of_int b"
      using rb1 pow2_pos [of "e0 + 1"] by (intro mult_left_mono) auto
    finally show ?thesis using bp by (simp add: x pos_divide_less_eq)
  qed
  have be: "binaryExponent x = (if pow2 e0 \<le> x then e0 else e0 - 1)"
    by (simp add: binaryExponent_def q e0_def la_def lb_def Let_def)
  show ?thesis
  proof (cases "pow2 e0 \<le> x")
    case True
    with be hi show ?thesis by simp
  next
    case False
    with be lo show ?thesis by simp
  qed
qed


lemma roundHalfEven_int: "roundHalfEven (of_int k) = k"
  by (simp add: roundHalfEven_def)

lemma roundHalfEven_ge_floor: "\<lfloor>x\<rfloor> \<le> roundHalfEven x"
  by (simp add: roundHalfEven_def Let_def)

lemma binaryExponent_less:
  assumes "0 < x" and "x < pow2 k"
  shows "binaryExponent x < k"
proof (rule ccontr)
  assume "\<not> binaryExponent x < k"
  then have "pow2 k \<le> pow2 (binaryExponent x)" by (intro pow2_mono) simp
  also have "\<dots> \<le> x" using binaryExponent_bounds [OF assms(1)] by simp
  finally show False using assms(2) by simp
qed

text \<open>A value on the grid of binary64 is returned unchanged.\<close>

lemma fl_exact:
  assumes x: "x = of_int m * pow2 e"
    and m: "\<bar>m\<bar> < 2 ^ 53"
    and e: "- 1074 \<le> e" "e \<le> 971"
  shows "fl x = Fin x"
proof (cases "x = 0")
  case True
  then show ?thesis by (simp add: fl_def)
next
  case False
  define a where "a = \<bar>x\<bar>"
  have a: "a = of_int \<bar>m\<bar> * pow2 e"
    using pow2_pos [of e] by (simp add: a_def x abs_mult)
  have ap: "0 < a" using False by (simp add: a_def)
  have "(of_int \<bar>m\<bar> :: rat) < of_int (2 ^ 53)" using m by (simp only: of_int_less_iff)
  then have "(of_int \<bar>m\<bar> :: rat) < pow2 53" by (simp add: pow2_def)
  then have "a < pow2 53 * pow2 e"
    unfolding a using pow2_pos [of e] by (intro mult_strict_right_mono) auto
  then have alt: "a < pow2 (e + 53)" by (simp add: pow2_add [symmetric] add.commute)
  define E where "E = max (binaryExponent a) (- 1022)"
  have "binaryExponent a < e + 53" using binaryExponent_less [OF ap alt] .
  with e have El: "E \<le> e + 52" by (simp add: E_def)
  define n where "n = nat (e + 52 - E)"
  have pe: "pow2 e = of_int (2 ^ n) * pow2 (E - 52)"
  proof -
    have "pow2 e = pow2 (int n + (E - 52))" using El by (simp add: n_def)
    also have "\<dots> = pow2 (int n) * pow2 (E - 52)" by (rule pow2_add)
    finally show ?thesis by (simp add: pow2_nat)
  qed
  have q: "a / pow2 (E - 52) = of_int (\<bar>m\<bar> * 2 ^ n)"
    using pow2_pos [of "E - 52"] by (simp add: a pe)
  have y: "of_int (roundHalfEven (a / pow2 (E - 52))) * pow2 (E - 52) = a"
    unfolding q roundHalfEven_int using pow2_pos [of "E - 52"] by (simp add: a pe)
  have "pow2 (e + 53) \<le> pow2 1024" using e by (intro pow2_mono) simp
  with alt have no: "\<not> pow2 1024 \<le> a" by simp
  have "fl x = Fin (if 0 < x then a else - a)"
    using False no y by (simp add: fl_def Let_def a_def [symmetric] E_def [symmetric])
  then show ?thesis by (simp add: a_def)
qed

lemma fl_int: "\<bar>m\<bar> < 2 ^ 53 \<Longrightarrow> fl (of_int m) = Fin (of_int m)"
  using fl_exact [of "of_int m" m 0] by (simp add: pow2_def)

lemma fl_nat: "n < 2 ^ 53 \<Longrightarrow> fl (of_nat n) = Fin (of_nat n)"
  using fl_int [of "int n"] by simp

text \<open>Rounding keeps the sign of every value that is not below the smallest subnormal.\<close>

lemma fl_positive:
  assumes "pow2 (- 1074) \<le> x"
  shows "flt (Fin 0) (fl x)"
proof -
  have xp: "0 < x" using assms pow2_pos [of "- 1074"] by simp
  define E where "E = max (binaryExponent x) (- 1022)"
  define q where "q = pow2 (E - 52)"
  have qp: "0 < q" by (simp add: q_def pow2_pos)
  have qx: "q \<le> x"
  proof (cases "binaryExponent x \<le> - 1022")
    case True
    then have "E = - 1022" by (simp add: E_def)
    with assms show ?thesis by (simp add: q_def)
  next
    case False
    then have "E = binaryExponent x" by (simp add: E_def)
    then have "q \<le> pow2 (binaryExponent x)" unfolding q_def by (intro pow2_mono) simp
    also have "\<dots> \<le> x" using binaryExponent_bounds [OF xp] by simp
    finally show ?thesis .
  qed
  then have "1 \<le> x / q" using qp by (simp add: pos_le_divide_eq)
  then have "1 \<le> \<lfloor>x / q\<rfloor>" by (simp add: le_floor_iff)
  with roundHalfEven_ge_floor [of "x / q"] have r: "1 \<le> roundHalfEven (x / q)" by linarith
  then have "0 < (of_int (roundHalfEven (x / q)) :: rat)" by simp
  then have "0 < of_int (roundHalfEven (x / q)) * q" using qp by simp
  then show ?thesis
    using xp by (simp add: fl_def Let_def E_def [symmetric] q_def [symmetric])
qed

lemma fl_not_positive:
  assumes "x \<le> 0"
  shows "\<not> flt (Fin 0) (fl x)"
proof (cases "x = 0")
  case True
  then show ?thesis by (simp add: fl_def)
next
  case False
  define q where "q = pow2 (max (binaryExponent \<bar>x\<bar>) (- 1022) - 52)"
  define y where "y = of_int (roundHalfEven (\<bar>x\<bar> / q)) * q"
  have f: "fl x = (if pow2 1024 \<le> y then (if 0 < x then PosInf else NegInf)
                   else Fin (if 0 < x then y else - y))"
    using False by (simp add: fl_def Let_def q_def y_def)
  have qp: "0 < q" by (simp add: q_def pow2_pos)
  have "0 \<le> \<bar>x\<bar> / q" using qp by simp
  then have "0 \<le> \<lfloor>\<bar>x\<bar> / q\<rfloor>" by (simp add: le_floor_iff)
  with roundHalfEven_ge_floor [of "\<bar>x\<bar> / q"] have "0 \<le> roundHalfEven (\<bar>x\<bar> / q)" by linarith
  then have "0 \<le> (of_int (roundHalfEven (\<bar>x\<bar> / q)) :: rat)" by simp
  then have "0 \<le> y" using qp by (simp add: y_def)
  moreover from False assms have "\<not> 0 < x" by simp
  ultimately show ?thesis by (simp add: f)
qed




subsection \<open>Trimming\<close>

lemma trim_empty_iff: "trim s = [] \<longleftrightarrow> list_all isWhiteSpace s"
proof -
  define d where "d = dropWhile isWhiteSpace s"
  have "dropWhile isWhiteSpace (rev d) = [] \<longleftrightarrow> d = []"
  proof
    assume a: "dropWhile isWhiteSpace (rev d) = []"
    show "d = []"
    proof (rule ccontr)
      assume n: "d \<noteq> []"
      then have "\<not> isWhiteSpace (hd d)" unfolding d_def by (metis hd_dropWhile)
      moreover have "hd d \<in> set (rev d)" using n by simp
      ultimately show False using a by (auto simp: dropWhile_eq_Nil_conv)
    qed
  qed simp
  then have "trim s = [] \<longleftrightarrow> d = []" by (simp add: trim_def d_def)
  then show ?thesis
    by (simp add: d_def dropWhile_eq_Nil_conv list_all_iff)
qed

lemma trim_no_outer_space:
  assumes t: "trim s = c # cs"
  shows "\<not> isWhiteSpace c \<and> \<not> isWhiteSpace (last (c # cs))"
proof -
  define d where "d = dropWhile isWhiteSpace s"
  define e where "e = dropWhile isWhiteSpace (rev d)"
  have te: "rev e = c # cs" using t by (simp add: trim_def d_def e_def)
  then have ne: "e \<noteq> []" by auto
  then have h: "\<not> isWhiteSpace (hd e)"
    unfolding e_def by (metis hd_dropWhile)
  have "last (c # cs) = hd e" using te ne by (metis last_rev)
  with h have l: "\<not> isWhiteSpace (last (c # cs))" by simp
  have "set e \<subseteq> set d" unfolding e_def by (auto dest: set_dropWhileD)
  then have dn: "d \<noteq> []" using ne by auto
  then have hd: "\<not> isWhiteSpace (hd d)" unfolding d_def by (metis hd_dropWhile)
  have "\<exists>ws. rev d = ws @ e" unfolding e_def
    by (metis takeWhile_dropWhile_id)
  then obtain ws where ws: "rev d = ws @ e" by blast
  then have "d = rev e @ rev ws" by (metis rev_append rev_rev_ident)
  with te have "hd d = c" by simp
  with hd l show ?thesis by simp
qed

text \<open>
  C3. A cell is classified as missing exactly when it is \<open>null\<close>, \<open>undefined\<close>, the empty
  string, a string of white space only, or a string whose trimmed, lower-cased form is
  one of the sentinels \<open>na\<close>, \<open>n/a\<close>, \<open>null\<close>, \<open>-\<close>, \<open>nan\<close>; numbers (the number 0 among
  them) and booleans (\<open>false\<close> among them) are always present.
\<close>

theorem isCellMissing_iff:
  "(isCellMissing c \<longleftrightarrow>
      c = Null \<or> c = Undefined \<or> c = Str ''''
      \<or> (\<exists>s. c = Str s \<and> list_all isWhiteSpace s)
      \<or> (\<exists>s. c = Str s \<and> toLowerCase (trim s) \<in> {''na'', ''n/a'', ''null'', ''-'', ''nan''}))
   \<and> \<not> isCellMissing (Num n) \<and> \<not> isCellMissing (Bool b)
   \<and> \<not> isCellMissing (Num (Fin 0)) \<and> \<not> isCellMissing (Bool False)"
  by (cases c) (auto simp: isCellMissing_def sentinels_def trim_empty_iff)

subsection \<open>The order of the numbers\<close>

lemma isNaN_iff [simp]: "isNaN a \<longleftrightarrow> a = NaN"
  by (cases a) auto




lemma fle_antisym: "fle a b \<Longrightarrow> fle b a \<Longrightarrow> a = b"
  by (cases a; cases b) auto



subsection \<open>Sorting with a comparator\<close>









subsection \<open>Minimum and maximum\<close>





subsection \<open>The mean\<close>



lemma fl_numeral: "(numeral k :: int) < 2 ^ 53 \<Longrightarrow> fl (numeral k) = Fin (numeral k)"
  using fl_int [of "numeral k"] by simp





subsection \<open>The frequency table\<close>

lemma firstOccurrences_snoc:
  "firstOccurrences (xs @ [x]) =
     (if x \<in> set xs then firstOccurrences xs else firstOccurrences xs @ [x])"
  by (simp add: firstOccurrences_def)

lemma set_firstOccurrences: "set (firstOccurrences xs) = set xs"
  by (simp add: firstOccurrences_def)

lemma distinct_firstOccurrences: "distinct (firstOccurrences xs)"
  by (simp add: firstOccurrences_def)

lemma increment_present:
  "distinct ks \<Longrightarrow> k \<in> set ks \<Longrightarrow>
     increment k (map (\<lambda>j. (j, c j)) ks) = map (\<lambda>j. (j, if j = k then c j + 1 else c j)) ks"
  by (induction ks) auto

lemma increment_absent:
  "k \<notin> set ks \<Longrightarrow> increment k (map (\<lambda>j. (j, c j)) ks) = map (\<lambda>j. (j, c j)) ks @ [(k, 1)]"
  by (induction ks) auto

lemma count_list_snoc: "count_list (xs @ [x]) k = count_list xs k + (if x = k then 1 else 0)"
  by (induction xs) auto

lemma count_list_zero: "k \<notin> set xs \<Longrightarrow> count_list xs k = 0"
  by (induction xs) auto

lemma frequency_table:
  "foldl (\<lambda>freq k. increment k freq) [] keys
     = map (\<lambda>k. (k, count_list keys k)) (firstOccurrences keys)"
proof (induction keys rule: rev_induct)
  case Nil
  then show ?case by (simp add: firstOccurrences_def)
next
  case (snoc k keys)
  show ?case
  proof (cases "k \<in> set keys")
    case True
    then have "k \<in> set (firstOccurrences keys)" by (simp add: set_firstOccurrences)
    from increment_present [OF distinct_firstOccurrences this, of "count_list keys"]
    show ?thesis using True snoc.IH
      by (simp add: firstOccurrences_snoc count_list_snoc)
  next
    case False
    then have n: "k \<notin> set (firstOccurrences keys)" by (simp add: set_firstOccurrences)
    have "map (\<lambda>j. (j, count_list keys j)) (firstOccurrences keys)
        = map (\<lambda>j. (j, count_list (keys @ [k]) j)) (firstOccurrences keys)"
      using n by (intro map_cong) (auto simp: count_list_snoc)
    with increment_absent [OF n, of "count_list keys"] False snoc.IH
    show ?thesis
      by (simp add: firstOccurrences_snoc count_list_snoc count_list_zero)
  qed
qed

lemma insort_key_map_pair:
  "insort_key (\<lambda>e. f (fst e)) (k, c k) (map (\<lambda>j. (j, c j)) ks)
     = map (\<lambda>j. (j, c j)) (insort_key f k ks)"
  by (induction ks) auto

lemma sort_key_map_pair:
  "sort_key (\<lambda>e. f (fst e)) (map (\<lambda>j. (j, c j)) ks) = map (\<lambda>j. (j, c j)) (sort_key f ks)"
  by (induction ks) (auto simp: insort_key_map_pair)

lemma objectEntries_table:
  "objectEntries (map (\<lambda>k. (k, count_list keys k)) (firstOccurrences keys))
     = map (\<lambda>k. (k, count_list keys k)) (enumerationOrder keys)"
  by (simp add: objectEntries_def enumerationOrder_def filter_map comp_def sort_key_map_pair)

subsection \<open>Sorting the entries by count\<close>

lemma compare_counts: "flt (Fin 0) (fsub (ofNat b) (ofNat a)) \<longleftrightarrow> a < b"
proof (cases "a < b")
  case True
  then have "1 \<le> int b - int a" by simp
  then have "(1::rat) \<le> of_int (int b - int a)" by (simp only: of_int_1_le_iff)
  then have "(1::rat) \<le> of_nat b - of_nat a" by simp
  moreover have "pow2 (- 1074) \<le> 1" using pow2_mono [of "- 1074" 0] by (simp add: pow2_def)
  ultimately have "pow2 (- 1074) \<le> of_nat b - of_nat a" by simp
  then have "flt (Fin 0) (fl (of_nat b - of_nat a))" by (rule fl_positive)
  with True show ?thesis by (simp add: fsub_def ofNat_def)
next
  case False
  then have "(of_nat b :: rat) - of_nat a \<le> 0" by simp
  then have "\<not> flt (Fin 0) (fl (of_nat b - of_nat a))" by (rule fl_not_positive)
  with False show ?thesis by (simp add: fsub_def ofNat_def)
qed

lemma sortWith_counts_head:
  fixes es :: "('a \<times> nat) list"
  assumes "es \<noteq> []"
  shows "\<exists>pre w post t. es = pre @ w # post
           \<and> sortWith (\<lambda>a b. fsub (ofNat (snd b)) (ofNat (snd a))) es = w # t
           \<and> (\<forall>e\<in>set pre. snd e < snd w) \<and> (\<forall>e\<in>set post. snd e \<le> snd w)"
  using assms
proof (induction es)
  case Nil
  then show ?case by simp
next
  case (Cons x xs)
  let ?cmp = "\<lambda>a b :: 'a \<times> nat. fsub (ofNat (snd b)) (ofNat (snd a))"
  show ?case
  proof (cases "xs = []")
    case True
    then have "x # xs = [] @ x # []" "sortWith ?cmp (x # xs) = x # []" by simp_all
    then show ?thesis by (metis empty_iff empty_set)
  next
    case False
    from Cons.IH [OF False] obtain pre w post t where
      xs: "xs = pre @ w # post" and s: "sortWith ?cmp xs = w # t"
      and pre: "\<forall>e\<in>set pre. snd e < snd w" and post: "\<forall>e\<in>set post. snd e \<le> snd w"
      by blast
    show ?thesis
    proof (cases "snd x < snd w")
      case True
      then have "sortWith ?cmp (x # xs) = w # insertWith ?cmp x t"
        by (simp add: s compare_counts)
      moreover have "x # xs = (x # pre) @ w # post" by (simp add: xs)
      moreover have "\<forall>e\<in>set (x # pre). snd e < snd w" using True pre by simp
      ultimately show ?thesis using post by blast
    next
      case False
      then have "sortWith ?cmp (x # xs) = x # w # t"
        by (simp add: s compare_counts)
      moreover have "x # xs = [] @ x # xs" by simp
      moreover have "\<forall>e\<in>set xs. snd e \<le> snd x"
        using False pre post by (auto simp: xs)
      ultimately show ?thesis by (metis empty_iff empty_set)
    qed
  qed
qed

lemma hd_filter_split:
  "\<forall>e\<in>set pre. \<not> P e \<Longrightarrow> P w \<Longrightarrow> hd (filter P (pre @ w # post)) = w"
  by (induction pre) auto

lemma enumerationOrder_set: "set (enumerationOrder keys) = set keys"
  by (auto simp: enumerationOrder_def set_firstOccurrences)

lemma enumerationOrder_distinct: "distinct (enumerationOrder keys)"
  by (auto simp: enumerationOrder_def distinct_firstOccurrences)

lemma calculateMode_by_keys:
  assumes "vs \<noteq> []"
  shows "calculateMode vs = keyResult (modeKey (map toString vs))
    \<and> modeKey (map toString vs) \<in> set (map toString vs)
    \<and> mostFrequent (map toString vs) (modeKey (map toString vs))"
proof -
  define keys where "keys = map toString vs"
  define es where "es = map (\<lambda>k. (k, count_list keys k)) (enumerationOrder keys)"
  let ?cmp = "\<lambda>a b :: string \<times> nat. fsub (ofNat (snd b)) (ofNat (snd a))"
  have fr: "foldl (\<lambda>freq val. increment (toString val) freq) [] vs
      = map (\<lambda>k. (k, count_list keys k)) (firstOccurrences keys)"
    using frequency_table [of keys] by (simp add: keys_def foldl_map)
  have en: "objectEntries (foldl (\<lambda>freq val. increment (toString val) freq) [] vs) = es"
    by (simp add: fr objectEntries_table es_def)
  have "keys \<noteq> []" using assms by (simp add: keys_def)
  then have "set (enumerationOrder keys) \<noteq> {}" by (simp add: enumerationOrder_set)
  then have ne: "es \<noteq> []" by (auto simp: es_def)
  from sortWith_counts_head [OF ne] obtain pre w post t where
    sp: "es = pre @ w # post" and s: "sortWith ?cmp es = w # t"
    and pre: "\<forall>e\<in>set pre. snd e < snd w" and post: "\<forall>e\<in>set post. snd e \<le> snd w"
    by blast
  have ws: "w \<in> set es" by (simp add: sp)
  then have w: "snd w = count_list keys (fst w)" "fst w \<in> set keys"
    by (auto simp: es_def enumerationOrder_set)
  have cnt: "\<forall>e\<in>set es. snd e = count_list keys (fst e)" by (auto simp: es_def)
  have order: "enumerationOrder keys = map fst pre @ fst w # map fst post"
  proof -
    have "map fst es = enumerationOrder keys" by (simp add: es_def comp_def)
    then show ?thesis by (simp add: sp)
  qed
  have top: "mostFrequent keys (fst w)"
    unfolding mostFrequent_def
  proof
    fix k assume "k \<in> set keys"
    then have "(k, count_list keys k) \<in> set es" by (simp add: es_def enumerationOrder_set)
    then have "(k, count_list keys k) \<in> set pre \<or> (k, count_list keys k) = w
        \<or> (k, count_list keys k) \<in> set post" by (auto simp: sp)
    then show "count_list keys k \<le> count_list keys (fst w)"
      using pre post w(1) by force
  qed
  have low: "\<forall>k\<in>set (map fst pre). \<not> mostFrequent keys k"
  proof
    fix k assume "k \<in> set (map fst pre)"
    then obtain e where e: "e \<in> set pre" "k = fst e" by auto
    then have "e \<in> set es" by (simp add: sp)
    with cnt have "snd e = count_list keys k" by (simp add: e(2))
    with pre e(1) w(1) have "count_list keys k < count_list keys (fst w)" by auto
    then have "\<not> count_list keys (fst w) \<le> count_list keys k" by simp
    with w(2) show "\<not> mostFrequent keys k" unfolding mostFrequent_def by blast
  qed
  have mk: "modeKey keys = fst w"
    unfolding modeKey_def order using low top by (rule hd_filter_split)
  have "calculateMode vs = keyResult (modeKey (map toString vs))"
    by (simp add: calculateMode_def Let_def en s mk [unfolded keys_def] keyResult_def)
  with top w(2) mk show ?thesis by (simp add: keys_def)
qed

lemma calculateMode_empty: "calculateMode [] = Str ''''"
  by (simp add: calculateMode_def objectEntries_def)

subsection \<open>Evaluating the conversions on literals\<close>

lemma stringToNumber_digit_2: "stringToNumber ''2'' = Fin 2"
  by (simp add: stringToNumber_def trim_def isWhiteSpace_def strNumericLiteral_def
      nonDecimalInteger_def unsignedDecimal_def isDigit_def digitsValue_def fl_numeral)

lemma stringToNumber_digit_3: "stringToNumber ''3'' = Fin 3"
  by (simp add: stringToNumber_def trim_def isWhiteSpace_def strNumericLiteral_def
      nonDecimalInteger_def unsignedDecimal_def isDigit_def digitsValue_def fl_numeral)

lemma stringToNumber_a: "stringToNumber ''a'' = NaN"
  by (simp add: stringToNumber_def trim_def isWhiteSpace_def strNumericLiteral_def
      nonDecimalInteger_def unsignedDecimal_def isDigit_def digitsValue_def)

lemma isArrayIndex_examples:
  "isArrayIndex ''2''" "isArrayIndex ''3''" "\<not> isArrayIndex ''a''" "\<not> isArrayIndex ''b''"
  by (simp_all add: isArrayIndex_def isDigit_def digitsValue_def)

text \<open>
  C4. For values whose string forms are not names inherited from \<^verbatim>\<open>Object.prototype\<close>,
  \<^verbatim>\<open>calculateMode\<close> returns the empty string for the empty list, and otherwise the result
  for a key with the highest count among the string forms, ties going to the first such
  key in the enumeration order of the frequency table: keys that are array indices in
  ascending numeric order, then the other keys by first occurrence. The result is the
  number of the key when \<^verbatim>\<open>Number\<close> converts it (not to NaN), the key itself otherwise.
\<close>

theorem calculateMode_enumeration_order:
  assumes "\<forall>v\<in>set vs. toString v \<notin> set objectPrototypeNames"
  shows "calculateMode vs =
           (if vs = [] then Str '''' else keyResult (modeKey (map toString vs)))
    \<and> (vs \<noteq> [] \<longrightarrow> modeKey (map toString vs) \<in> set (map toString vs)
          \<and> mostFrequent (map toString vs) (modeKey (map toString vs)))"
  using calculateMode_by_keys [of vs] calculateMode_empty by auto

theorem calculateMode_enumeration_order_witness:
  "calculateMode [Str ''a'', Str ''b'', Str ''a''] = Str ''a''
   \<and> calculateMode [Str ''2'', Str ''2'', Str ''3''] = Num (Fin 2)"
proof -
  have h1: "\<forall>v\<in>set [Str ''a'', Str ''b'', Str ''a'']. toString v \<notin> set objectPrototypeNames"
    by (simp add: objectPrototypeNames_def)
  have h2: "\<forall>v\<in>set [Str ''2'', Str ''2'', Str ''3'']. toString v \<notin> set objectPrototypeNames"
    by (simp add: objectPrototypeNames_def)
  have k1: "modeKey [''a'', ''b'', ''a''] = ''a''"
    by (simp add: modeKey_def enumerationOrder_def firstOccurrences_def mostFrequent_def
        isArrayIndex_examples)
  have k2: "modeKey [''2'', ''2'', ''3''] = ''2''"
    by (simp add: modeKey_def enumerationOrder_def firstOccurrences_def mostFrequent_def
        isArrayIndex_examples digitsValue_def)
  from calculateMode_enumeration_order [OF h1] calculateMode_enumeration_order [OF h2]
  show ?thesis
    by (simp add: k1 k2 keyResult_def stringToNumber_a stringToNumber_digit_2)
qed

text \<open>
  The tie-break of the specification fails on keys that are array indices: of the tied
  keys 3 and 2 the code returns 2, the smaller index, not the first encountered.
\<close>

theorem calculateMode_first_encountered_counterexample:
  "calculateMode [Str ''3'', Str ''2''] = Num (Fin 2)
   \<and> keyResult (modeKeyFirstEncountered (map toString [Str ''3'', Str ''2''])) = Num (Fin 3)
   \<and> Num (Fin 2) \<noteq> Num (Fin 3)"
proof -
  have a: "calculateMode [Str ''3'', Str ''2''] = Num (Fin 2)"
    by (simp add: calculateMode_def objectEntries_def isArrayIndex_examples digitsValue_def
        compare_counts stringToNumber_digit_2)
  have b: "modeKeyFirstEncountered [''3'', ''2''] = ''3''"
    by (simp add: modeKeyFirstEncountered_def firstOccurrences_def mostFrequent_def)
  show ?thesis by (simp add: a b keyResult_def stringToNumber_digit_3)
qed

subsection \<open>Evaluating the arithmetic on small values\<close>

lemma fl_half: "fl (1 / 2) = Fin (1 / 2)"
  using fl_exact [of "1 / 2" 1 "- 1"] by (simp add: pow2_def)

lemma fl_zero: "fl 0 = Fin 0"
  by (simp add: fl_def)

subsection \<open>Looking a column up\<close>

lemma indexOf_None_iff: "indexOf hs x = None \<longleftrightarrow> x \<notin> set hs"
  by (induction hs) auto

lemma indexOf_Some: "indexOf hs x = Some i \<Longrightarrow> i < length hs \<and> hs ! i = x"
  by (induction hs arbitrary: i) (auto split: if_splits)

lemma indexOf_first: "indexOf hs x = Some i \<Longrightarrow> j < i \<Longrightarrow> hs ! j \<noteq> x"
proof (induction hs arbitrary: i j)
  case Nil
  then show ?case by simp
next
  case (Cons h hs)
  show ?case
  proof (cases "h = x")
    case True
    with Cons.prems show ?thesis by simp
  next
    case False
    with Cons.prems obtain i' where i': "indexOf hs x = Some i'" "i = Suc i'" by auto
    show ?thesis
    proof (cases j)
      case 0
      with False show ?thesis by simp
    next
      case (Suc j')
      with Cons.prems(2) i'(2) have "j' < i'" by simp
      from Cons.IH [OF i'(1) this] Suc show ?thesis by simp
    qed
  qed
qed

text \<open>
  C8. An entry whose column is not among the headers of the working table is skipped:
  the pass returns the working table as it was, whatever the entry holds (a malformed
  entry included), and the loop goes on to the next entry having made one progress call
  and no error call.
\<close>

theorem unknown_column_skipped:
  assumes "column \<notin> set (headers t)"
  shows "processColumn t (column, st) = Inr t
    \<and> processColumns step n ((column, st) # entries) t =
        (Progress (progressOf (step + 1) n) # fst (processColumns (step + 1) n entries t),
         snd (processColumns (step + 1) n entries t))"
proof -
  from assms have "indexOf (headers t) column = None" by (simp add: indexOf_None_iff)
  then have p: "processColumn t (column, st) = Inr t" by (simp add: processColumn_def)
  then show ?thesis by (simp add: split_beta)
qed

theorem unknown_column_skipped_witness:
  "''z'' \<notin> set (headers \<lparr>headers = [''x''], rows = [[Null]]\<rparr>)
   \<and> processColumn \<lparr>headers = [''x''], rows = [[Null]]\<rparr> (''z'', NullSetting)
       = Inr \<lparr>headers = [''x''], rows = [[Null]]\<rparr>
   \<and> processColumns 0 1 [(''z'', NullSetting)] \<lparr>headers = [''x''], rows = [[Null]]\<rparr>
       = ([Progress (progressOf 1 1)], Inr \<lparr>headers = [''x''], rows = [[Null]]\<rparr>)"
proof -
  have h: "''z'' \<notin> set (headers \<lparr>headers = [''x''], rows = [[Null]]\<rparr>)" by simp
  from unknown_column_skipped [OF h, of NullSetting 0 1 "[]"] h show ?thesis by simp
qed

text \<open>
  C1. For an entry with strategy \<open>drop\<close> whose column is a header, let \<open>p\<close> be the
  percentage as the code computes it over the working table, \<open>(missingCount / totalRows)
  * 100\<close> in number arithmetic and 0 for a table without rows, and let \<open>t\<close> be the
  threshold: the number of the setting's value when that is neither NaN nor zero, and 50
  when it is NaN (the value is absent or not numeric). When \<open>p \<le> t\<close>, the boundary
  included, the pass removes exactly the rows whose cell in the column is missing; otherwise
  it leaves the working table unchanged. In both cases nothing is thrown and the loop goes
  on with the next entry.
\<close>

theorem drop_strategy:
  assumes "indexOf (headers t) column = Some colIndex"
  shows "processColumn t (column, ColumnSetting ''drop'' v) =
           Inr (if fle (missingPercentage (rows t) colIndex) (threshold v)
                then t\<lparr>rows := filter (\<lambda>row. \<not> isCellMissing (cellAt row colIndex)) (rows t)\<rparr>
                else t)
    \<and> missingPercentage (rows t) colIndex =
          (if rows t = [] then Fin 0
           else fmul (fdiv (ofNat (length (filter (\<lambda>row. isCellMissing (cellAt row colIndex)) (rows t))))
                           (ofNat (length (rows t)))) (Fin 100))
    \<and> (toNumber v \<noteq> NaN \<and> toNumber v \<noteq> Fin 0 \<longrightarrow> threshold v = toNumber v)
    \<and> (toNumber v = NaN \<longrightarrow> threshold v = Fin 50)
    \<and> (\<exists>t'. processColumn t (column, ColumnSetting ''drop'' v) = Inr t'
          \<and> processColumns step n ((column, ColumnSetting ''drop'' v) # entries) t =
               (Progress (progressOf (step + 1) n) # fst (processColumns (step + 1) n entries t'),
                snd (processColumns (step + 1) n entries t')))"
proof -
  have a: "processColumn t (column, ColumnSetting ''drop'' v) =
           Inr (if fle (missingPercentage (rows t) colIndex) (threshold v)
                then t\<lparr>rows := filter (\<lambda>row. \<not> isCellMissing (cellAt row colIndex)) (rows t)\<rparr>
                else t)"
    using assms by (simp add: processColumn_def)
  have b: "missingPercentage (rows t) colIndex =
          (if rows t = [] then Fin 0
           else fmul (fdiv (ofNat (length (filter (\<lambda>row. isCellMissing (cellAt row colIndex)) (rows t))))
                           (ofNat (length (rows t)))) (Fin 100))"
    by (simp add: missingPercentage_def missingCount_def)
  have c: "toNumber v \<noteq> NaN \<and> toNumber v \<noteq> Fin 0 \<longrightarrow> threshold v = toNumber v"
    and d: "toNumber v = NaN \<longrightarrow> threshold v = Fin 50"
    by (simp_all add: threshold_def)
  from a obtain t' where t': "processColumn t (column, ColumnSetting ''drop'' v) = Inr t'"
    by blast
  then have "processColumns step n ((column, ColumnSetting ''drop'' v) # entries) t =
               (Progress (progressOf (step + 1) n) # fst (processColumns (step + 1) n entries t'),
                snd (processColumns (step + 1) n entries t'))"
    by (simp add: split_beta)
  with t' have e: "\<exists>t'. processColumn t (column, ColumnSetting ''drop'' v) = Inr t'
          \<and> processColumns step n ((column, ColumnSetting ''drop'' v) # entries) t =
               (Progress (progressOf (step + 1) n) # fst (processColumns (step + 1) n entries t'),
                snd (processColumns (step + 1) n entries t'))" by blast
  from a b c d e show ?thesis by blast
qed

lemma missingPercentage_half: "missingPercentage [[Str ''''], [Str ''a'']] 0 = Fin 50"
  by (simp add: missingPercentage_def missingCount_def cellAt_def isCellMissing_def
      trim_def isWhiteSpace_def toLowerCase_def lowerChar_def sentinels_def ofNat_def
      fl_half fl_numeral)

lemma isCellMissing_examples:
  "isCellMissing (Str '''')" "\<not> isCellMissing (Str ''a'')" "isCellMissing Null"
  by (simp_all add: isCellMissing_def trim_def isWhiteSpace_def toLowerCase_def lowerChar_def
      sentinels_def)

theorem drop_strategy_witness:
  "indexOf (headers \<lparr>headers = [''x''], rows = [[Str ''''], [Str ''a'']]\<rparr>) ''x'' = Some 0
   \<and> toNumber (Num (Fin 50)) \<noteq> NaN \<and> toNumber (Num (Fin 50)) \<noteq> Fin 0
   \<and> toNumber Undefined = NaN
   \<and> threshold (Num (Fin 50)) = Fin 50
   \<and> threshold Undefined = Fin 50
   \<and> processColumn \<lparr>headers = [''x''], rows = [[Str ''''], [Str ''a'']]\<rparr>
        (''x'', ColumnSetting ''drop'' (Num (Fin 50)))
       = Inr \<lparr>headers = [''x''], rows = [[Str ''a'']]\<rparr>
   \<and> processColumn \<lparr>headers = [''x''], rows = [[Str ''''], [Str ''a'']]\<rparr>
        (''x'', ColumnSetting ''drop'' (Num (Fin 49)))
       = Inr \<lparr>headers = [''x''], rows = [[Str ''''], [Str ''a'']]\<rparr>"
proof -
  have h: "indexOf (headers \<lparr>headers = [''x''], rows = [[Str ''''], [Str ''a'']]\<rparr>) ''x'' = Some 0"
    by simp
  have t49: "threshold (Num (Fin 49)) = Fin 49" and t50: "threshold (Num (Fin 50)) = Fin 50"
    and tu: "threshold Undefined = Fin 50"
    by (simp_all add: threshold_def)
  from drop_strategy [OF h, of "Num (Fin 50)" 0 1 "[]", THEN conjunct1]
  have a: "processColumn \<lparr>headers = [''x''], rows = [[Str ''''], [Str ''a'']]\<rparr>
        (''x'', ColumnSetting ''drop'' (Num (Fin 50)))
       = Inr \<lparr>headers = [''x''], rows = [[Str ''a'']]\<rparr>"
    by (simp add: missingPercentage_half t50 cellAt_def isCellMissing_examples)
  from drop_strategy [OF h, of "Num (Fin 49)" 0 1 "[]", THEN conjunct1]
  have b: "processColumn \<lparr>headers = [''x''], rows = [[Str ''''], [Str ''a'']]\<rparr>
        (''x'', ColumnSetting ''drop'' (Num (Fin 49)))
       = Inr \<lparr>headers = [''x''], rows = [[Str ''''], [Str ''a'']]\<rparr>"
    by (simp add: missingPercentage_half t49)
  from h a b t50 tu show ?thesis by simp
qed

text \<open>
  The claim fails for a threshold of zero, which \<^verbatim>\<open>Number(value) || 50\<close> replaces by 50:
  with one of two cells missing the percentage 50 is above the given threshold 0, and the
  row is dropped all the same.
\<close>

theorem drop_threshold_zero_counterexample:
  "toNumber (Num (Fin 0)) = Fin 0
   \<and> missingPercentage [[Str ''''], [Str ''a'']] 0 = Fin 50
   \<and> \<not> fle (Fin 50) (Fin 0)
   \<and> processColumn \<lparr>headers = [''x''], rows = [[Str ''''], [Str ''a'']]\<rparr>
        (''x'', ColumnSetting ''drop'' (Num (Fin 0)))
       = Inr \<lparr>headers = [''x''], rows = [[Str ''a'']]\<rparr>"
  by (simp add: missingPercentage_half processColumn_def threshold_def cellAt_def
      isCellMissing_examples)

subsection \<open>The percentage is a rounded quantity\<close>

lemma binaryExponent_eq:
  assumes "pow2 k \<le> x" and "x < pow2 (k + 1)"
  shows "binaryExponent x = k"
proof -
  have xp: "0 < x" using assms(1) pow2_pos [of k] by simp
  have "binaryExponent x < k + 1" using binaryExponent_less [OF xp assms(2)] .
  moreover have "k < binaryExponent x + 1"
  proof (rule ccontr)
    assume "\<not> k < binaryExponent x + 1"
    then have "pow2 (binaryExponent x + 1) \<le> pow2 k" by (intro pow2_mono) simp
    with binaryExponent_bounds [OF xp] assms(1) show False by simp
  qed
  ultimately show ?thesis by simp
qed

lemma fl_normal:
  assumes "pow2 k \<le> x" and "x < pow2 (k + 1)" and "- 1022 \<le> k"
  shows "fl x = (if pow2 1024 \<le> of_int (roundHalfEven (x / pow2 (k - 52))) * pow2 (k - 52)
                 then PosInf
                 else Fin (of_int (roundHalfEven (x / pow2 (k - 52))) * pow2 (k - 52)))"
proof -
  have xp: "0 < x" using assms(1) pow2_pos [of k] by simp
  have "max (binaryExponent x) (- 1022) = k"
    using binaryExponent_eq [OF assms(1,2)] assms(3) by simp
  then show ?thesis using xp by (simp add: fl_def Let_def)
qed

lemma floor_numeral_divide: "\<lfloor>(numeral a :: rat) / numeral b\<rfloor> = numeral a div numeral b"
  using floor_divide_of_int_eq [of "numeral a" "numeral b", where ?'a = rat] by simp

text \<open>
  Seven missing cells in 25 rows are 28 percent; the code computes
  \<open>0.28 * 100 = 28.000000000000004\<close>, which is above a threshold of 28.
\<close>

lemma quotient_7_25: "fdiv (ofNat 7) (ofNat 25) = Fin (1261007895663739 / 4503599627370496)"
proof -
  have "fl (7 / 25) = Fin (1261007895663739 / 4503599627370496)"
    by (subst fl_normal [of "- 2"])
      (simp_all add: pow2_def roundHalfEven_def Let_def floor_numeral_divide)
  then show ?thesis by (simp add: ofNat_def)
qed

lemma percentage_7_25:
  "fmul (fdiv (ofNat 7) (ofNat 25)) (Fin 100) = Fin (7881299347898369 / 281474976710656)"
proof -
  have "fl (1261007895663739 / 4503599627370496 * 100) = Fin (7881299347898369 / 281474976710656)"
    by (subst fl_normal [of 4])
      (simp_all add: pow2_def roundHalfEven_def Let_def floor_numeral_divide)
  then show ?thesis by (simp add: quotient_7_25)
qed

lemma percentage_7_25_above_28:
  "\<not> fle (fmul (fdiv (ofNat 7) (ofNat 25)) (Fin 100)) (Fin 28)"
  by (simp add: percentage_7_25)

subsection \<open>Reading and writing a row\<close>

lemma cellAt_setCell: "cellAt (setCell row i v) j = (if j = i then v else cellAt row j)"
proof (cases "i < length row")
  case True
  then show ?thesis by (auto simp: cellAt_def setCell_def)
next
  case False
  then show ?thesis
    by (auto simp: cellAt_def setCell_def nth_append)
qed

lemma cellAt_fillRow:
  "cellAt (fillRow colIndex v row) j =
     (if j = colIndex \<and> isCellMissing (cellAt row colIndex) then v else cellAt row j)"
  by (simp add: fillRow_def cellAt_setCell)

lemma fillRow_present: "\<not> isCellMissing (cellAt row colIndex) \<Longrightarrow> fillRow colIndex v row = row"
  by (simp add: fillRow_def)

subsection \<open>The strategy \<open>fill-value\<close>\<close>

lemma fill_value_strategy:
  assumes "indexOf (headers t) column = Some colIndex"
  shows "processColumn t (column, ColumnSetting ''fill-value'' v) =
           Inr (t\<lparr>rows := map (fillRow colIndex (fillValue v)) (rows t)\<rparr>)"
  using assms by (simp add: processColumn_def)

lemma stringToNumber_empty: "stringToNumber '''' = Fin 0"
  by (simp add: stringToNumber_def trim_def)

lemma stringToNumber_digit_5: "stringToNumber ''5'' = Fin 5"
  by (simp add: stringToNumber_def trim_def isWhiteSpace_def strNumericLiteral_def
      nonDecimalInteger_def unsignedDecimal_def isDigit_def digitsValue_def fl_numeral)

lemma stringToNumber_abc: "stringToNumber ''abc'' = NaN"
  by (simp add: stringToNumber_def trim_def isWhiteSpace_def strNumericLiteral_def
      nonDecimalInteger_def unsignedDecimal_def isDigit_def digitsValue_def)

lemma fillValue_examples:
  "fillValue (Str ''5'') = Num (Fin 5)" "fillValue (Str ''abc'') = Str ''abc''"
  "fillValue (Num n) = Num n"
  by (simp_all add: fillValue_def stringToNumber_digit_5 stringToNumber_abc)

text \<open>
  C2. The fill value for an absent setting value is not the empty string: the default
  \<^verbatim>\<open>""\<close> of \<^verbatim>\<open>columnSetting.value ?? ""\<close> goes through \<^verbatim>\<open>Number\<close>, which converts it to 0, so
  the missing cells are filled with the number 0.
\<close>

theorem fill_value_absent_fills_zero:
  "fillValue Undefined = Num (Fin 0)
   \<and> Num (Fin 0) \<noteq> Str ''''
   \<and> processColumn \<lparr>headers = [''x''], rows = [[Null], [Str ''a'']]\<rparr>
        (''x'', ColumnSetting ''fill-value'' Undefined)
       = Inr \<lparr>headers = [''x''], rows = [[Num (Fin 0)], [Str ''a'']]\<rparr>"
  by (simp add: fillValue_def stringToNumber_empty processColumn_def fillRow_def cellAt_def
      setCell_def isCellMissing_examples)

subsection \<open>Removing rows by position\<close>

lemma filter_zip_positions:
  "map snd (filter (\<lambda>(index, row). P index) (zip [k..<k + length xs] xs))
     = map fst (filter (\<lambda>p. P (snd p)) (zip xs [k..<k + length xs]))"
proof (induction xs arbitrary: k)
  case Nil
  then show ?case by simp
next
  case (Cons x xs)
  have "[k..<k + length (x # xs)] = k # [Suc k..<Suc k + length xs]"
    by (subst upt_rec) simp
  with Cons.IH [of "Suc k"] show ?case by simp
qed

lemma rows_removeRows: "rows (removeRows data indices) = nths (rows data) {i. i \<notin> set indices}"
  using filter_zip_positions [of "\<lambda>i. i \<notin> set indices" 0 "rows data"]
  by (simp add: removeRows_def nths_def)

text \<open>
  C9. With an active profile that holds a table, \<^verbatim>\<open>removeDuplicates\<close> and
  \<^verbatim>\<open>removeOutliers\<close> store, as the cleaned table of the profile and of the store, a table with
  the headers of the input table and exactly the rows of the input table whose 0-based
  position is not among the indices, in their original order.
\<close>

theorem remove_rows_by_index:
  assumes "currentProfile s = Some p" and "profileData p = Some data"
  shows "cleanedData (removeDuplicates indices s)
           = Some \<lparr>headers = headers data, rows = nths (rows data) {i. i \<notin> set indices}\<rparr>
    \<and> cleanedData (removeOutliers indices s)
           = Some \<lparr>headers = headers data, rows = nths (rows data) {i. i \<notin> set indices}\<rparr>
    \<and> map_option profileCleanedData (profiles (removeDuplicates indices s) (the (activeProfileId s)))
           = Some (Some \<lparr>headers = headers data, rows = nths (rows data) {i. i \<notin> set indices}\<rparr>)
    \<and> map_option profileCleanedData (profiles (removeOutliers indices s) (the (activeProfileId s)))
           = Some (Some \<lparr>headers = headers data, rows = nths (rows data) {i. i \<notin> set indices}\<rparr>)"
proof -
  have r: "removeRows data indices
      = \<lparr>headers = headers data, rows = nths (rows data) {i. i \<notin> set indices}\<rparr>"
    using rows_removeRows [of data indices] by (simp add: removeRows_def)
  show ?thesis
    using assms by (simp add: removeDuplicates_def removeOutliers_def Let_def r)
qed

theorem remove_rows_by_index_witness:
  "currentProfile
     \<lparr>profiles = [''f'' \<mapsto> \<lparr>profileProcessedData = None,
         profileCleanedData = Some \<lparr>headers = [''x''], rows = [[Str ''a''], [Str ''b''], [Str ''c'']]\<rparr>\<rparr>],
      activeProfileId = Some ''f'', isLoading = False, error = None, rawData = None,
      processedData = None, cleanedData = None\<rparr>
     = Some \<lparr>profileProcessedData = None,
         profileCleanedData = Some \<lparr>headers = [''x''], rows = [[Str ''a''], [Str ''b''], [Str ''c'']]\<rparr>\<rparr>
   \<and> cleanedData (removeDuplicates [1]
     \<lparr>profiles = [''f'' \<mapsto> \<lparr>profileProcessedData = None,
         profileCleanedData = Some \<lparr>headers = [''x''], rows = [[Str ''a''], [Str ''b''], [Str ''c'']]\<rparr>\<rparr>],
      activeProfileId = Some ''f'', isLoading = False, error = None, rawData = None,
      processedData = None, cleanedData = None\<rparr>)
     = Some \<lparr>headers = [''x''], rows = [[Str ''a''], [Str ''c'']]\<rparr>"
proof -
  define p where "p = \<lparr>profileProcessedData = None,
         profileCleanedData = Some \<lparr>headers = [''x''], rows = [[Str ''a''], [Str ''b''], [Str ''c'']]\<rparr>\<rparr>"
  define s where "s = \<lparr>profiles = [''f'' \<mapsto> p],
      activeProfileId = Some ''f'', isLoading = False, error = None, rawData = None,
      processedData = None, cleanedData = None\<rparr>"
  have h1: "currentProfile s = Some p" by (simp add: currentProfile_def s_def)
  have h2: "profileData p = Some \<lparr>headers = [''x''], rows = [[Str ''a''], [Str ''b''], [Str ''c'']]\<rparr>"
    by (simp add: profileData_def p_def)

  from remove_rows_by_index [OF h1 h2, of "[1]", THEN conjunct1] h1
  show ?thesis unfolding s_def p_def by (simp add: nths_Cons)
qed

subsection \<open>The fill strategies leave the other columns alone\<close>

lemma fill_step:
  assumes "st = ColumnSetting ''fill-value'' v \<or> st = ColumnSetting ''fill-method'' v"
  shows "\<exists>t'. processColumn t (column, st) = Inr t'
    \<and> headers t' = headers t
    \<and> length (rows t') = length (rows t)
    \<and> (\<forall>r j. r < length (rows t) \<and> indexOf (headers t) column \<noteq> Some j
          \<longrightarrow> cellAt (rows t' ! r) j = cellAt (rows t ! r) j)"
proof (cases "indexOf (headers t) column")
  case None
  then have "processColumn t (column, st) = Inr t" by (simp add: processColumn_def)
  then show ?thesis by simp
next
  case (Some colIndex)
  define x where "x = (if st = ColumnSetting ''fill-value'' v then fillValue v
                       else replacementValue (rows t) colIndex v)"
  have "processColumn t (column, st) = Inr (t\<lparr>rows := map (fillRow colIndex x) (rows t)\<rparr>)"
    using assms Some by (auto simp: processColumn_def x_def)
  moreover have "cellAt (map (fillRow colIndex x) (rows t) ! r) j = cellAt (rows t ! r) j"
    if "r < length (rows t)" "colIndex \<noteq> j" for r j
    using that by (simp add: cellAt_fillRow)
  ultimately show ?thesis using Some by auto
qed

lemma fill_loop:
  assumes "\<forall>e\<in>set entries. \<exists>v. snd e = ColumnSetting ''fill-value'' v
                                 \<or> snd e = ColumnSetting ''fill-method'' v"
  shows "\<exists>t'. snd (processColumns step n entries t) = Inr t'
    \<and> headers t' = headers t
    \<and> length (rows t') = length (rows t)
    \<and> (\<forall>r j. r < length (rows t) \<and> (\<forall>e\<in>set entries. indexOf (headers t) (fst e) \<noteq> Some j)
          \<longrightarrow> cellAt (rows t' ! r) j = cellAt (rows t ! r) j)"
  using assms
proof (induction entries arbitrary: t step)
  case Nil
  then show ?case by simp
next
  case (Cons entry entries)
  obtain column st where entry: "entry = (column, st)" by (cases entry)
  from Cons.prems entry obtain v where
    st: "st = ColumnSetting ''fill-value'' v \<or> st = ColumnSetting ''fill-method'' v" by auto
  from fill_step [OF st, of t column] obtain t1 where
    p: "processColumn t (column, st) = Inr t1" and h1: "headers t1 = headers t"
    and l1: "length (rows t1) = length (rows t)"
    and c1: "\<forall>r j. r < length (rows t) \<and> indexOf (headers t) column \<noteq> Some j
          \<longrightarrow> cellAt (rows t1 ! r) j = cellAt (rows t ! r) j"
    by blast
  from Cons.prems have rest: "\<forall>e\<in>set entries. \<exists>v. snd e = ColumnSetting ''fill-value'' v
                                 \<or> snd e = ColumnSetting ''fill-method'' v" by simp
  from Cons.IH [OF rest, of "step + 1" t1] obtain t' where
    q: "snd (processColumns (step + 1) n entries t1) = Inr t'" and h2: "headers t' = headers t1"
    and l2: "length (rows t') = length (rows t1)"
    and c2: "\<forall>r j. r < length (rows t1) \<and> (\<forall>e\<in>set entries. indexOf (headers t1) (fst e) \<noteq> Some j)
          \<longrightarrow> cellAt (rows t' ! r) j = cellAt (rows t1 ! r) j"
    by blast
  have "snd (processColumns step n (entry # entries) t) = Inr t'"
    using p q by (simp add: entry split_beta)
  moreover have "cellAt (rows t' ! r) j = cellAt (rows t ! r) j"
    if "r < length (rows t)" "\<forall>e\<in>set (entry # entries). indexOf (headers t) (fst e) \<noteq> Some j"
    for r j
  proof -
    from that(2) have a: "indexOf (headers t) column \<noteq> Some j"
      and b: "\<forall>e\<in>set entries. indexOf (headers t1) (fst e) \<noteq> Some j"
      by (simp_all add: entry h1)
    from c2 that(1) b l1 have "cellAt (rows t' ! r) j = cellAt (rows t1 ! r) j" by simp
    also from c1 that(1) a have "\<dots> = cellAt (rows t ! r) j" by simp
    finally show ?thesis .
  qed
  ultimately show ?case using h1 h2 l1 l2 by auto
qed

text \<open>
  C10. When every entry of the settings has the strategy \<open>fill-value\<close> or \<open>fill-method\<close>,
  the loop throws nothing and ends with a table that has the headers and the number of
  rows of the working table, and in which every cell at a position that is not the
  position of a column named in the settings reads as it did in the working table. The
  action commits that table: the cleaned table has as many rows as the source and agrees
  with the copy of the source outside the named columns.
\<close>

theorem fill_strategies_frame:
  assumes "\<forall>e\<in>set entries. \<exists>v. snd e = ColumnSetting ''fill-value'' v
                                 \<or> snd e = ColumnSetting ''fill-method'' v"
  shows "(\<exists>t'. snd (processColumns step n entries t) = Inr t'
      \<and> headers t' = headers t
      \<and> length (rows t') = length (rows t)
      \<and> (\<forall>r j. r < length (rows t) \<and> (\<forall>e\<in>set entries. indexOf (headers t) (fst e) \<noteq> Some j)
            \<longrightarrow> cellAt (rows t' ! r) j = cellAt (rows t ! r) j))
    \<and> (sourceData s = Some src \<longrightarrow>
         (\<exists>t'. cleanedData (fst (processMissingValues entries s)) = Some t'
            \<and> length (rows t') = length (rows src)
            \<and> (\<forall>r j. r < length (rows src)
                    \<and> (\<forall>e\<in>set entries. indexOf (headers src) (fst e) \<noteq> Some j)
                  \<longrightarrow> cellAt (rows t' ! r) j = cellAt (rows (deepCopy src) ! r) j)))"
proof -
  have "\<exists>t'. cleanedData (fst (processMissingValues entries s)) = Some t'
            \<and> length (rows t') = length (rows src)
            \<and> (\<forall>r j. r < length (rows src)
                    \<and> (\<forall>e\<in>set entries. indexOf (headers src) (fst e) \<noteq> Some j)
                  \<longrightarrow> cellAt (rows t' ! r) j = cellAt (rows (deepCopy src) ! r) j)"
    if src: "sourceData s = Some src"
  proof -
    from fill_loop [OF assms, of 0 "length entries" "deepCopy src"] obtain t' where
      q: "snd (processColumns 0 (length entries) entries (deepCopy src)) = Inr t'"
      and l: "length (rows t') = length (rows (deepCopy src))"
      and c: "\<forall>r j. r < length (rows (deepCopy src))
            \<and> (\<forall>e\<in>set entries. indexOf (headers (deepCopy src)) (fst e) \<noteq> Some j)
          \<longrightarrow> cellAt (rows t' ! r) j = cellAt (rows (deepCopy src) ! r) j"
      by blast
    have "cleanedData (fst (processMissingValues entries s)) = Some t'"
      using src q by (simp add: processMissingValues_def Let_def split_beta)
    moreover have "length (rows (deepCopy src)) = length (rows src)"
      "headers (deepCopy src) = headers src"
      by (simp_all add: deepCopy_def)
    ultimately show ?thesis using l c by auto
  qed
  with fill_loop [OF assms, of step n t] show ?thesis by blast
qed

theorem fill_strategies_frame_witness:
  "snd (processColumns 0 1 [(''y'', ColumnSetting ''fill-value'' (Str ''abc''))]
        \<lparr>headers = [''x'', ''y''], rows = [[Str ''a'', Null]]\<rparr>)
     = Inr \<lparr>headers = [''x'', ''y''], rows = [[Str ''a'', Str ''abc'']]\<rparr>
   \<and> (\<exists>t'. snd (processColumns 0 1 [(''y'', ColumnSetting ''fill-value'' (Str ''abc''))]
               \<lparr>headers = [''x'', ''y''], rows = [[Str ''a'', Null]]\<rparr>) = Inr t'
         \<and> length (rows t') = 1 \<and> cellAt (rows t' ! 0) 0 = Str ''a'')"
proof -
  define t where "t = \<lparr>headers = [''x'', ''y''], rows = [[Str ''a'', Null]]\<rparr>"
  define entries where "entries = [(''y'', ColumnSetting ''fill-value'' (Str ''abc''))]"
  have h: "\<forall>e\<in>set entries. \<exists>v. snd e = ColumnSetting ''fill-value'' v
                                 \<or> snd e = ColumnSetting ''fill-method'' v"
    by (simp add: entries_def)
  have o: "\<forall>e\<in>set entries. indexOf (headers t) (fst e) \<noteq> Some 0"
    by (simp add: entries_def t_def)
  from fill_strategies_frame [OF h, of 0 1 t, THEN conjunct1] obtain t' where
    q: "snd (processColumns 0 1 entries t) = Inr t'" and l: "length (rows t') = length (rows t)"
    and c: "\<forall>r j. r < length (rows t) \<and> (\<forall>e\<in>set entries. indexOf (headers t) (fst e) \<noteq> Some j)
            \<longrightarrow> cellAt (rows t' ! r) j = cellAt (rows t ! r) j"
    by blast
  from c o have "cellAt (rows t' ! 0) 0 = cellAt (rows t ! 0) 0" by (simp add: t_def)
  then have c0: "cellAt (rows t' ! 0) 0 = Str ''a''" by (simp add: t_def cellAt_def)
  from l have l1: "length (rows t') = 1" by (simp add: t_def)
  have e: "snd (processColumns 0 1 entries t)
     = Inr \<lparr>headers = [''x'', ''y''], rows = [[Str ''a'', Str ''abc'']]\<rparr>"
    by (simp add: entries_def t_def processColumn_def fillRow_def cellAt_def setCell_def
        isCellMissing_examples fillValue_examples)
  from q l1 c0 e show ?thesis unfolding t_def entries_def by blast
qed

subsection \<open>Failure of the action\<close>





subsection \<open>What the heap operations build\<close>

lemma allocRows_eq:
  "allocRows css h = ([length h..<length h + length css], h @ map CellArray css)"
proof (induction css arbitrary: h)
  case Nil
  then show ?case by simp
next
  case (Cons cs css)
  have "[length h..<length h + length (cs # css)]
      = length h # [Suc (length h)..<Suc (length h) + length css]"
    by (subst upt_rec) simp
  with Cons.IH [of "h @ [CellArray cs]"] show ?case by (simp add: alloc_def)
qed

lemma fillRowsH_eq:
  "fillRowsH colIndex v css h =
     ([length h..<length h + length css],
      h @ map (\<lambda>row. CellArray (fillRow colIndex v row)) css)"
proof (induction css arbitrary: h)
  case Nil
  then show ?case by simp
next
  case (Cons row css)
  have u: "[length h..<length h + length (row # css)]
      = length h # [Suc (length h)..<Suc (length h) + length css]"
    by (subst upt_rec) simp
  define h2 where "h2 = h @ [CellArray (fillRow colIndex v row)]"
  have "(if isCellMissing (cellAt row colIndex)
         then (h @ [CellArray row])[length h := CellArray (setCell row colIndex v)]
         else h @ [CellArray row]) = h2"
    by (simp add: h2_def fillRow_def)
  with Cons.IH [of h2] u show ?case by (simp add: alloc_def h2_def)
qed

lemma fillColumnH_eq:
  "fillColumnH cur hr colIndex v css h =
     (h @ map (\<lambda>row. CellArray (fillRow colIndex v row)) css
        @ [RefArray [length h..<length h + length css]])
       [cur := TableObject hr (length h + length css)]"
  by (simp add: fillColumnH_def fillRowsH_eq alloc_def)

lemma dropRowsH_eq:
  "dropRowsH cur hr colIndex refs css h =
     (h @ [RefArray (map fst (filter (\<lambda>(r, row). \<not> isCellMissing (cellAt row colIndex))
                                (zip refs css)))])
       [cur := TableObject hr (length h)]"
  by (simp add: dropRowsH_def alloc_def)

subsection \<open>Objects that exist are not written\<close>

lemma take_fillColumnH:
  "k \<le> length h \<Longrightarrow> k \<le> cur \<Longrightarrow> take k (fillColumnH cur hr colIndex v css h) = take k h"
  by (simp add: fillColumnH_eq take_update_cancel)

lemma take_dropRowsH:
  "k \<le> length h \<Longrightarrow> k \<le> cur \<Longrightarrow> take k (dropRowsH cur hr colIndex refs css h) = take k h"
  by (simp add: dropRowsH_eq take_update_cancel)

lemma length_fillColumnH: "length h \<le> length (fillColumnH cur hr colIndex v css h)"
  by (simp add: fillColumnH_eq)

lemma length_dropRowsH: "length h \<le> length (dropRowsH cur hr colIndex refs css h)"
  by (simp add: dropRowsH_eq)

lemma processColumnH_frame:
  assumes "k \<le> length h" and "k \<le> cur"
  shows "k \<le> length (fst (processColumnH cur entry h))
    \<and> take k (fst (processColumnH cur entry h)) = take k h"
proof -
  have a: "k \<le> length (fillColumnH cur hr colIndex v css h)" for hr colIndex v css
    using assms(1) length_fillColumnH [of h cur hr colIndex v css] by simp
  have b: "k \<le> length (dropRowsH cur hr colIndex refs css h)" for hr colIndex refs css
    using assms(1) length_dropRowsH [of h cur hr colIndex refs css] by simp
  show ?thesis
    using assms a b
    by (auto simp: processColumnH_def take_fillColumnH take_dropRowsH
        split: option.splits columnSetting.splits)
qed

lemma processColumnsH_frame:
  assumes "k \<le> length h" and "k \<le> cur"
  shows "k \<le> length (fst (snd (processColumnsH step n entries cur h)))
    \<and> take k (fst (snd (processColumnsH step n entries cur h))) = take k h"
  using assms
proof (induction entries arbitrary: h step)
  case Nil
  then show ?case by simp
next
  case (Cons entry entries)
  obtain h1 r where p: "processColumnH cur entry h = (h1, r)" by (cases "processColumnH cur entry h")
  from processColumnH_frame [OF Cons.prems, of entry] p
  have f: "k \<le> length h1" "take k h1 = take k h" by simp_all
  show ?case
  proof (cases r)
    case None
    from Cons.IH [OF f(1) Cons.prems(2), of "step + 1"] f(2) p None
    show ?thesis by (simp add: split_beta)
  next
    case (Some e)
    with p f show ?thesis by simp
  qed
qed

lemma deepCopyH_frame:
  "length h \<le> length (fst (deepCopyH src h))
   \<and> take (length h) (fst (deepCopyH src h)) = h
   \<and> (\<forall>cur. snd (deepCopyH src h) = Inr cur \<longrightarrow> length h \<le> cur
         \<and> cur < length (fst (deepCopyH src h)))"
  by (auto simp: deepCopyH_def allocRows_eq alloc_def split: option.splits)

lemma sourceDataH_frame:
  "length (heap s) \<le> length (fst (sourceDataH s))
   \<and> take (length (heap s)) (fst (sourceDataH s)) = heap s"
  by (auto simp: sourceDataH_def alloc_def split: option.splits)

lemma processMissingValuesH_frame:
  "take (length (heap s)) (heap (fst (processMissingValuesH settings s))) = heap s"
proof -
  define k where "k = length (heap s)"
  obtain h0 src where sd: "sourceDataH s = (h0, src)" by (cases "sourceDataH s")
  from sourceDataH_frame [of s] sd have h0: "k \<le> length h0" "take k h0 = heap s"
    by (simp_all add: k_def)
  show ?thesis
  proof (cases src)
    case None
    with sd show ?thesis by (simp add: processMissingValuesH_def)
  next
    case (Some r)
    show ?thesis
    proof (cases r)
      case (Inl e)
      with sd Some show ?thesis by (simp add: processMissingValuesH_def)
    next
      case (Inr a)
      obtain h1 c where dc: "deepCopyH a h0 = (h1, c)" by (cases "deepCopyH a h0")
      from deepCopyH_frame [of h0 a] dc
      have h1: "length h0 \<le> length h1" "take (length h0) h1 = h0"
        and cur: "\<forall>cur. c = Inr cur \<longrightarrow> length h0 \<le> cur" by simp_all
      have "take k h1 = take k (take (length h0) h1)" using h0(1) by (simp add: min_def)
      with h1(2) h0(2) have t1: "take k h1 = heap s" by simp
      have l1: "k \<le> length h1" using h0(1) h1(1) by simp
      show ?thesis
      proof (cases c)
        case (Inl e)
        with sd Some Inr dc t1 show ?thesis
          by (simp add: processMissingValuesH_def catchH_def Let_def k_def)
      next
        case (Inr cur')
        with cur h0(1) have kc: "k \<le> cur'" by simp
        obtain evs h2 r2 where pc:
          "processColumnsH 0 (length settings) settings cur' h1 = (evs, h2, r2)"
          by (cases "processColumnsH 0 (length settings) settings cur' h1") auto
        from processColumnsH_frame [OF l1 kc, of 0 "length settings" settings] pc t1
        have "take k h2 = heap s" by simp
        with sd Some \<open>r = Inr a\<close> dc Inr pc show ?thesis
          by (cases r2) (simp_all add: processMissingValuesH_def catchH_def Let_def k_def)
      qed
    qed
  qed
qed

subsection \<open>Reading an extended heap\<close>

lemma extended_nth:
  assumes "take (length h) h' = h" and "a < length h"
  shows "a < length h' \<and> h' ! a = h ! a"
proof -
  have "length (take (length h) h') = length h" using assms(1) by simp
  then have l: "length h \<le> length h'" by simp
  have "h' ! a = take (length h) h' ! a" using assms(2) by simp
  with assms l show ?thesis by simp
qed

lemma extended_readTable:
  "take (length h) h' = h \<Longrightarrow> readTable h a = Some x \<Longrightarrow> readTable h' a = Some x"
  using extended_nth [of h h' a] by (auto simp: readTable_def split: if_splits)

lemma extended_readStrings:
  "take (length h) h' = h \<Longrightarrow> readStrings h a = Some x \<Longrightarrow> readStrings h' a = Some x"
  using extended_nth [of h h' a] by (auto simp: readStrings_def split: if_splits)

lemma extended_readRefs:
  "take (length h) h' = h \<Longrightarrow> readRefs h a = Some x \<Longrightarrow> readRefs h' a = Some x"
  using extended_nth [of h h' a] by (auto simp: readRefs_def split: if_splits)

lemma extended_readCells:
  "take (length h) h' = h \<Longrightarrow> readCells h a = Some x \<Longrightarrow> readCells h' a = Some x"
  using extended_nth [of h h' a] by (auto simp: readCells_def split: if_splits)

lemma extended_readRows:
  "take (length h) h' = h \<Longrightarrow> readRows h refs = Some css \<Longrightarrow> readRows h' refs = Some css"
proof (induction refs arbitrary: css)
  case Nil
  then show ?case by simp
next
  case (Cons r refs)
  from Cons.prems(2) obtain cs css' where
    c: "readCells h r = Some cs" and r: "readRows h refs = Some css'" and e: "css = cs # css'"
    by (auto split: option.splits)
  from extended_readCells [OF Cons.prems(1) c] Cons.IH [OF Cons.prems(1) r] e
  show ?case by simp
qed

lemma extended_tableAt:
  assumes "take (length h) h' = h" and "tableAt h a = Some t"
  shows "tableAt h' a = Some t"
proof -
  from assms(2) obtain hr rr hs refs css where
    p: "readTable h a = Some (hr, rr)" "readStrings h hr = Some hs"
       "readRefs h rr = Some refs" "readRows h refs = Some css"
       "t = \<lparr>headers = hs, rows = css\<rparr>"
    by (auto simp: tableAt_def split: option.splits)
  from extended_readTable [OF assms(1) p(1)] extended_readStrings [OF assms(1) p(2)]
    extended_readRefs [OF assms(1) p(3)] extended_readRows [OF assms(1) p(4)] p(5)
  show ?thesis by (simp add: tableAt_def)
qed

lemma processMissingValuesH_refs:
  "rawDataRef (fst (processMissingValuesH settings s)) = rawDataRef s
   \<and> processedDataRef (fst (processMissingValuesH settings s)) = processedDataRef s"
  by (auto simp: processMissingValuesH_def catchH_def Let_def split: prod.splits option.splits sum.splits)

text \<open>
  C6. The action writes no object that existed before the call: the heap after the call
  begins with the heap before it. So every table that an address denoted before the call,
  the source table among them, is denoted by the same address after it, with the same
  headers, the same rows and the same cells; and the raw and the processed table of the
  store are the ones from before.
\<close>

theorem source_not_mutated:
  "take (length (heap s)) (heap (fst (processMissingValuesH settings s))) = heap s
   \<and> (tableAt (heap s) a = Some t \<longrightarrow>
        tableAt (heap (fst (processMissingValuesH settings s))) a = Some t)
   \<and> rawDataRef (fst (processMissingValuesH settings s)) = rawDataRef s
   \<and> processedDataRef (fst (processMissingValuesH settings s)) = processedDataRef s"
  using processMissingValuesH_frame [of s settings] processMissingValuesH_refs [of settings s]
    extended_tableAt [of "heap s" "heap (fst (processMissingValuesH settings s))" a t]
  by blast

theorem source_not_mutated_witness:
  "tableAt (heap \<lparr>heap = [StringArray [''x''], CellArray [Null], RefArray [1], TableObject 0 2],
        rawDataRef = None, processedDataRef = None, cleanedDataRef = Some 3,
        isLoadingH = False, errorH = None\<rparr>) 3
     = Some \<lparr>headers = [''x''], rows = [[Null]]\<rparr>
   \<and> tableAt (heap (fst (processMissingValuesH [(''x'', ColumnSetting ''fill-value'' (Str ''5''))]
       \<lparr>heap = [StringArray [''x''], CellArray [Null], RefArray [1], TableObject 0 2],
        rawDataRef = None, processedDataRef = None, cleanedDataRef = Some 3,
        isLoadingH = False, errorH = None\<rparr>))) 3
     = Some \<lparr>headers = [''x''], rows = [[Null]]\<rparr>
   \<and> cleanedDataRef (fst (processMissingValuesH [(''x'', ColumnSetting ''fill-value'' (Str ''5''))]
       \<lparr>heap = [StringArray [''x''], CellArray [Null], RefArray [1], TableObject 0 2],
        rawDataRef = None, processedDataRef = None, cleanedDataRef = Some 3,
        isLoadingH = False, errorH = None\<rparr>)) = Some 7
   \<and> tableAt (heap (fst (processMissingValuesH [(''x'', ColumnSetting ''fill-value'' (Str ''5''))]
       \<lparr>heap = [StringArray [''x''], CellArray [Null], RefArray [1], TableObject 0 2],
        rawDataRef = None, processedDataRef = None, cleanedDataRef = Some 3,
        isLoadingH = False, errorH = None\<rparr>))) 7
     = Some \<lparr>headers = [''x''], rows = [[Num (Fin 5)]]\<rparr>"
proof -
  define s where "s = \<lparr>heap = [StringArray [''x''], CellArray [Null], RefArray [1], TableObject 0 2],
        rawDataRef = None, processedDataRef = None, cleanedDataRef = Some 3,
        isLoadingH = False, errorH = None\<rparr>"
  define settings where "settings = [(''x'', ColumnSetting ''fill-value'' (Str ''5''))]"
  have a: "tableAt (heap s) 3 = Some \<lparr>headers = [''x''], rows = [[Null]]\<rparr>"
    by (simp add: s_def tableAt_def readTable_def readStrings_def readRefs_def readCells_def)
  from source_not_mutated [of s settings 3 "\<lparr>headers = [''x''], rows = [[Null]]\<rparr>"] a
  have b: "tableAt (heap (fst (processMissingValuesH settings s))) 3
      = Some \<lparr>headers = [''x''], rows = [[Null]]\<rparr>" by blast
  have d: "deepCopyH 3 (heap s) =
      (heap s @ [StringArray [''x''], CellArray [Null], RefArray [5], TableObject 4 6], Inr 7)"
    by (simp add: s_def deepCopyH_def readTable_def readStrings_def readRefs_def readCells_def
        alloc_def)
  have p: "processColumnH 7 (''x'', ColumnSetting ''fill-value'' (Str ''5''))
        (heap s @ [StringArray [''x''], CellArray [Null], RefArray [5], TableObject 4 6])
      = ([StringArray [''x''], CellArray [Null], RefArray [1], TableObject 0 2,
          StringArray [''x''], CellArray [Null], RefArray [5], TableObject 4 9,
          CellArray [Num (Fin 5)], RefArray [8]], None)"
    by (simp add: s_def processColumnH_def readTable_def readStrings_def readRefs_def
        readCells_def fillColumnH_eq fillValue_examples fillRow_def cellAt_def setCell_def
        isCellMissing_examples)
  have r: "fst (processMissingValuesH settings s) =
      s\<lparr>heap := [StringArray [''x''], CellArray [Null], RefArray [1], TableObject 0 2,
          StringArray [''x''], CellArray [Null], RefArray [5], TableObject 4 9,
          CellArray [Num (Fin 5)], RefArray [8]],
        cleanedDataRef := Some 7, isLoadingH := False, errorH := None\<rparr>"
    using d p by (simp add: processMissingValuesH_def sourceDataH_def settings_def s_def)
  have c: "cleanedDataRef (fst (processMissingValuesH settings s)) = Some 7"
    by (simp add: r)
  have e: "tableAt (heap (fst (processMissingValuesH settings s))) 7
      = Some \<lparr>headers = [''x''], rows = [[Num (Fin 5)]]\<rparr>"
    by (simp add: r tableAt_def readTable_def readStrings_def readRefs_def readCells_def)
  from a b c e show ?thesis unfolding s_def settings_def by simp
qed

subsection \<open>The heap action computes what the action on tables computes\<close>

lemma readRows_length: "readRows h refs = Some css \<Longrightarrow> length css = length refs"
  by (induction refs arbitrary: css) (auto split: option.splits)

lemma readRows_cells:
  "readRows h refs = Some css \<Longrightarrow> r \<in> set refs \<Longrightarrow> \<exists>cs. readCells h r = Some cs"
  by (induction refs arbitrary: css) (auto split: option.splits)

lemma readRows_fresh:
  "readRows (pre @ map CellArray css @ post) [length pre..<length pre + length css] = Some css"
proof (induction css arbitrary: pre)
  case Nil
  then show ?case by simp
next
  case (Cons cs css)
  have u: "[length pre..<length pre + length (cs # css)]
      = length pre # [length (pre @ [CellArray cs])..<length (pre @ [CellArray cs]) + length css]"
    by (subst upt_rec) simp
  have c: "readCells (pre @ map CellArray (cs # css) @ post) (length pre) = Some cs"
    by (simp add: readCells_def nth_append)
  have "pre @ map CellArray (cs # css) @ post = (pre @ [CellArray cs]) @ map CellArray css @ post"
    by simp
  with Cons.IH [of "pre @ [CellArray cs]"]
  have "readRows (pre @ map CellArray (cs # css) @ post)
      [length (pre @ [CellArray cs])..<length (pre @ [CellArray cs]) + length css] = Some css"
    by simp
  with u c show ?case by (simp del: map_append append_assoc upt_Suc)
qed

lemma readRows_same_cells:
  "\<forall>r\<in>set refs. readCells h' r = readCells h r \<Longrightarrow> readRows h' refs = readRows h refs"
  by (induction refs) (auto split: option.splits)

lemma readRows_kept:
  assumes "readRows h refs = Some css"
  shows "readRows h (map fst (filter (\<lambda>(r, row). P row) (zip refs css)))
           = Some (filter P css)"
  using assms
proof (induction refs arbitrary: css)
  case Nil
  then show ?case by simp
next
  case (Cons r refs)
  from Cons.prems obtain cs css' where
    c: "readCells h r = Some cs" and rr: "readRows h refs = Some css'" and e: "css = cs # css'"
    by (auto split: option.splits)
  from Cons.IH [OF rr] c show ?case by (simp add: e)
qed

lemma tableAt_parts:
  assumes "tableAt h a = Some t"
  obtains hr rr refs where
    "readTable h a = Some (hr, rr)" "readStrings h hr = Some (headers t)"
    "readRefs h rr = Some refs" "readRows h refs = Some (rows t)"
  using assms by (auto simp: tableAt_def split: option.splits)

lemma deepCopyH_table:
  assumes "tableAt h src = Some t"
  shows "\<exists>h1 cur. deepCopyH src h = (h1, Inr cur) \<and> tableAt h1 cur = Some (deepCopy t)"
proof -
  from assms obtain hr rr refs where
    p: "readTable h src = Some (hr, rr)" "readStrings h hr = Some (headers t)"
       "readRefs h rr = Some refs" "readRows h refs = Some (rows t)"
    by (rule tableAt_parts)
  define k where "k = length h"
  define css where "css = map (map jsonCell) (rows t)"
  define n where "n = length css"
  define ar where "ar = Suc k + n"
  define cur where "cur = Suc ar"
  define rs where "rs = [Suc k..<Suc k + n]"
  define h1 where "h1 = (h @ [StringArray (headers t)]) @ map CellArray css
      @ [RefArray rs, TableObject k ar]"
  have d: "deepCopyH src h = (h1, Inr cur)"
    using p
    by (simp add: deepCopyH_def allocRows_eq alloc_def h1_def k_def css_def n_def ar_def
        cur_def rs_def del: upt_Suc)
  have l: "length h1 = Suc cur" by (simp add: h1_def k_def n_def ar_def cur_def)
  have "h1 ! cur = TableObject k ar"
    by (simp add: h1_def nth_append k_def n_def ar_def cur_def)
  then have t1: "readTable h1 cur = Some (k, ar)"
    using l by (simp add: readTable_def)
  have "h1 ! k = StringArray (headers t)" by (simp add: h1_def nth_append k_def)
  moreover have "k < length h1" using l by (simp add: ar_def cur_def)
  ultimately have t2: "readStrings h1 k = Some (headers t)" by (simp add: readStrings_def)
  have "h1 ! ar = RefArray rs"
    by (simp add: h1_def nth_append k_def n_def ar_def)
  moreover have "ar < length h1" using l by (simp add: cur_def)
  ultimately have t3: "readRefs h1 ar = Some rs"
    by (simp add: readRefs_def)
  have t4: "readRows h1 rs = Some css"
    using readRows_fresh [of "h @ [StringArray (headers t)]" css
        "[RefArray rs, TableObject k ar]"]
    by (simp add: h1_def k_def n_def rs_def del: upt_Suc)
  have "tableAt h1 cur = Some (deepCopy t)"
    unfolding tableAt_def t1 by (simp add: t2 t3 t4 deepCopy_def css_def)
  with d show ?thesis by blast
qed

lemma readTable_SomeD: "readTable h a = Some (hr, rr) \<Longrightarrow> a < length h \<and> h ! a = TableObject hr rr"
  by (auto simp: readTable_def split: if_splits obj.splits)

lemma readStrings_SomeD: "readStrings h a = Some ss \<Longrightarrow> a < length h \<and> h ! a = StringArray ss"
  by (auto simp: readStrings_def split: if_splits obj.splits)

lemma readCells_SomeD: "readCells h a = Some cs \<Longrightarrow> a < length h \<and> h ! a = CellArray cs"
  by (auto simp: readCells_def split: if_splits obj.splits)

lemma fillColumnH_table:
  assumes "tableAt h cur = Some t" and "readTable h cur = Some (hr, rr)"
  shows "tableAt (fillColumnH cur hr colIndex x (rows t) h) cur
           = Some (t\<lparr>rows := map (fillRow colIndex x) (rows t)\<rparr>)"
proof -
  from assms(1) obtain hr' rr' refs where
    p: "readTable h cur = Some (hr', rr')" "readStrings h hr' = Some (headers t)"
    by (rule tableAt_parts)
  with assms(2) have hs: "readStrings h hr = Some (headers t)" by simp
  from readTable_SomeD [OF assms(2)] have c: "cur < length h" "h ! cur = TableObject hr rr"
    by simp_all
  from readStrings_SomeD [OF hs] have s: "hr < length h" "h ! hr = StringArray (headers t)"
    by simp_all
  from c(2) s(2) have ne: "hr \<noteq> cur" by auto
  define k where "k = length h"
  define n where "n = length (rows t)"
  define ar where "ar = k + n"
  define rs where "rs = [k..<k + n]"
  define css where "css = map (fillRow colIndex x) (rows t)"
  define pre where "pre = h[cur := TableObject hr ar]"
  define h' where "h' = pre @ map CellArray css @ [RefArray rs]"
  have lp: "length pre = k" by (simp add: pre_def k_def)
  have lc: "length css = n" by (simp add: css_def n_def)
  have f: "fillColumnH cur hr colIndex x (rows t) h = h'"
    using c(1)
    by (simp add: fillColumnH_eq h'_def pre_def css_def rs_def ar_def k_def n_def
        list_update_append1 comp_def del: upt_Suc)
  have l: "length h' = Suc ar" by (simp add: h'_def lp lc ar_def)
  have "h' ! cur = TableObject hr ar"
    using c(1) by (simp add: h'_def pre_def nth_append)
  moreover have "cur < length h'" using c(1) l by (simp add: ar_def k_def)
  ultimately have t1: "readTable h' cur = Some (hr, ar)" by (simp add: readTable_def)
  have "h' ! hr = StringArray (headers t)"
    using s ne by (simp add: h'_def pre_def nth_append)
  moreover have "hr < length h'" using s(1) l by (simp add: ar_def k_def)
  ultimately have t2: "readStrings h' hr = Some (headers t)" by (simp add: readStrings_def)
  have "h' ! ar = RefArray rs"
    by (simp add: h'_def nth_append lp lc ar_def)
  then have t3: "readRefs h' ar = Some rs" using l by (simp add: readRefs_def)
  have t4: "readRows h' rs = Some css"
    using readRows_fresh [of pre css "[RefArray rs]"]
    by (simp add: h'_def lp lc rs_def del: upt_Suc)
  have "tableAt h' cur = Some \<lparr>headers = headers t, rows = css\<rparr>"
    unfolding tableAt_def t1 by (simp add: t2 t3 t4)
  then show ?thesis by (simp add: f css_def)
qed

lemma dropRowsH_table:
  assumes "tableAt h cur = Some t" and "readTable h cur = Some (hr, rr)"
    and "readRefs h rr = Some refs"
  shows "tableAt (dropRowsH cur hr colIndex refs (rows t) h) cur
           = Some (t\<lparr>rows := filter (\<lambda>row. \<not> isCellMissing (cellAt row colIndex)) (rows t)\<rparr>)"
proof -
  from assms(1) obtain hr' rr' refs' where
    p: "readTable h cur = Some (hr', rr')" "readStrings h hr' = Some (headers t)"
       "readRefs h rr' = Some refs'" "readRows h refs' = Some (rows t)"
    by (rule tableAt_parts)
  with assms(2,3) have hs: "readStrings h hr = Some (headers t)"
    and rr: "readRows h refs = Some (rows t)" by simp_all
  from readTable_SomeD [OF assms(2)] have c: "cur < length h" "h ! cur = TableObject hr rr"
    by simp_all
  from readStrings_SomeD [OF hs] have s: "hr < length h" "h ! hr = StringArray (headers t)"
    by simp_all
  from c(2) s(2) have ne: "hr \<noteq> cur" by auto
  define k where "k = length h"
  define kept where "kept = map fst (filter (\<lambda>(r, row). \<not> isCellMissing (cellAt row colIndex))
                                      (zip refs (rows t)))"
  define h' where "h' = h[cur := TableObject hr k] @ [RefArray kept]"
  have f: "dropRowsH cur hr colIndex refs (rows t) h = h'"
    using c(1) by (simp add: dropRowsH_eq h'_def kept_def k_def list_update_append1)
  have l: "length h' = Suc k" by (simp add: h'_def k_def)
  have "h' ! cur = TableObject hr k" using c(1) by (simp add: h'_def nth_append)
  moreover have "cur < length h'" using c(1) l by (simp add: k_def)
  ultimately have t1: "readTable h' cur = Some (hr, k)" by (simp add: readTable_def)
  have "h' ! hr = StringArray (headers t)" using s ne by (simp add: h'_def nth_append)
  moreover have "hr < length h'" using s(1) l by (simp add: k_def)
  ultimately have t2: "readStrings h' hr = Some (headers t)" by (simp add: readStrings_def)
  have "h' ! k = RefArray kept" by (simp add: h'_def nth_append k_def)
  then have t3: "readRefs h' k = Some kept" using l by (simp add: readRefs_def)
  have same: "\<forall>r\<in>set kept. readCells h' r = readCells h r"
  proof
    fix r assume "r \<in> set kept"
    then have "r \<in> set refs" by (auto simp: kept_def dest: set_zip_leftD)
    from readRows_cells [OF rr this] obtain cs where cs: "readCells h r = Some cs" by blast
    from readCells_SomeD [OF cs] have r: "r < length h" "h ! r = CellArray cs" by simp_all
    with c(2) have "r \<noteq> cur" by auto
    with r have "h' ! r = h ! r" "r < length h'" by (simp_all add: h'_def nth_append)
    with r(1) show "readCells h' r = readCells h r" by (simp add: readCells_def)
  qed
  have "readRows h kept = Some (filter (\<lambda>row. \<not> isCellMissing (cellAt row colIndex)) (rows t))"
    unfolding kept_def using rr by (rule readRows_kept)
  with readRows_same_cells [OF same]
  have t4: "readRows h' kept = Some (filter (\<lambda>row. \<not> isCellMissing (cellAt row colIndex)) (rows t))"
    by simp
  have "tableAt h' cur = Some \<lparr>headers = headers t,
      rows = filter (\<lambda>row. \<not> isCellMissing (cellAt row colIndex)) (rows t)\<rparr>"
    unfolding tableAt_def t1 by (simp add: t2 t3 t4)
  then show ?thesis by (simp add: f)
qed

lemma processColumnH_refines:
  assumes "tableAt h cur = Some t"
  shows "(processColumn t entry = Inl e \<longrightarrow> processColumnH cur entry h = (h, Some e))
    \<and> (processColumn t entry = Inr t' \<longrightarrow>
         snd (processColumnH cur entry h) = None
         \<and> tableAt (fst (processColumnH cur entry h)) cur = Some t')"
proof -
  from assms obtain hr rr refs where
    p: "readTable h cur = Some (hr, rr)" "readStrings h hr = Some (headers t)"
       "readRefs h rr = Some refs" "readRows h refs = Some (rows t)"
    by (rule tableAt_parts)
  note f = fillColumnH_table [OF assms p(1)]
  note d = dropRowsH_table [OF assms p(1) p(3)]
  show ?thesis
  proof (cases "indexOf (headers t) (fst entry)")
    case None
    with p assms show ?thesis by (auto simp: processColumn_def processColumnH_def)
  next
    case (Some colIndex)
    show ?thesis
    proof (cases "snd entry")
      case NullSetting
      with p Some show ?thesis by (auto simp: processColumn_def processColumnH_def)
    next
      case (ColumnSetting strat v)
      with p Some assms f d show ?thesis
        by (auto simp: processColumn_def processColumnH_def)
    qed
  qed
qed

lemma processColumnsH_refines:
  assumes "tableAt h cur = Some t"
  shows "fst (processColumnsH step n entries cur h) = fst (processColumns step n entries t)
    \<and> (case snd (processColumns step n entries t) of
          Inl e \<Rightarrow> snd (snd (processColumnsH step n entries cur h)) = Some e
        | Inr t' \<Rightarrow> snd (snd (processColumnsH step n entries cur h)) = None
            \<and> tableAt (fst (snd (processColumnsH step n entries cur h))) cur = Some t')"
  using assms
proof (induction entries arbitrary: h t step)
  case Nil
  then show ?case by simp
next
  case (Cons entry entries)
  show ?case
  proof (cases "processColumn t entry")
    case (Inl e)
    with processColumnH_refines [OF Cons.prems, of entry e]
    have "processColumnH cur entry h = (h, Some e)" by simp
    with Inl show ?thesis by simp
  next
    case (Inr t1)
    obtain h1 r where pc: "processColumnH cur entry h = (h1, r)"
      by (cases "processColumnH cur entry h")
    with processColumnH_refines [OF Cons.prems, of entry _ t1] Inr
    have r: "r = None" and t1: "tableAt h1 cur = Some t1" by simp_all
    from Cons.IH [OF t1, of "step + 1"] pc r Inr show ?thesis
      by (auto simp: split_beta split: sum.splits)
  qed
qed

lemma tableOf_extended:
  "denotesTable h r \<Longrightarrow> take (length h) h' = h \<Longrightarrow> tableOf h' r = tableOf h r"
  by (cases r) (auto simp: denotesTable_def tableOf_def dest: extended_tableAt)

lemma sourceDataH_refines:
  assumes "wellFormed s"
  shows "(sourceData (storeOf ps active s) = None \<longrightarrow> snd (sourceDataH s) = None)
    \<and> (sourceData (storeOf ps active s) = Some t \<longrightarrow>
         (\<exists>src. snd (sourceDataH s) = Some (Inr src) \<and> tableAt (fst (sourceDataH s)) src = Some t))"
proof (cases "cleanedDataRef s")
  case (Some a)
  with assms obtain t0 where "tableAt (heap s) a = Some t0"
    by (auto simp: wellFormed_def denotesTable_def)
  with Some show ?thesis by (simp add: sourceData_def storeOf_def tableOf_def sourceDataH_def)
next
  case None
  note c = None
  show ?thesis
  proof (cases "processedDataRef s")
    case (Some a)
    with assms obtain t0 where "tableAt (heap s) a = Some t0"
      by (auto simp: wellFormed_def denotesTable_def)
    with Some c show ?thesis
      by (simp add: sourceData_def storeOf_def tableOf_def sourceDataH_def)
  next
    case None
    note p = None
    show ?thesis
    proof (cases "rawDataRef s")
      case None
      with c p show ?thesis by (simp add: sourceData_def storeOf_def tableOf_def sourceDataH_def)
    next
      case (Some raw)
      with assms obtain t0 where t0: "tableAt (heap s) raw = Some t0"
        by (auto simp: wellFormed_def denotesTable_def)
      then obtain hr rr refs where
        q: "readTable (heap s) raw = Some (hr, rr)" "readStrings (heap s) hr = Some (headers t0)"
           "readRefs (heap s) rr = Some refs" "readRows (heap s) refs = Some (rows t0)"
        by (rule tableAt_parts)
      define h1 where "h1 = heap s @ [TableObject hr rr]"
      have e: "take (length (heap s)) h1 = heap s" by (simp add: h1_def)
      have sd: "sourceDataH s = (h1, Some (Inr (length (heap s))))"
        using c p Some q(1) by (simp add: sourceDataH_def alloc_def h1_def)
      have "readTable h1 (length (heap s)) = Some (hr, rr)"
        by (simp add: readTable_def h1_def)
      with extended_readStrings [OF e q(2)] extended_readRefs [OF e q(3)]
        extended_readRows [OF e q(4)]
      have "tableAt h1 (length (heap s)) = Some t0" by (simp add: tableAt_def)
      with sd c p Some t0 show ?thesis
        by (simp add: sourceData_def storeOf_def tableOf_def)
    qed
  qed
qed

text \<open>
  The action on the heap and the action on tables agree: on a well-formed heap store they
  make the same callback calls, and the store that the resulting heap store denotes is the
  resulting store of tables. What is proved of \<open>processMissingValues\<close> on tables therefore
  holds of the action on the heap.
\<close>

lemma processMissingValuesH_refines:
  assumes "wellFormed s"
  shows "storeOf ps active (fst (processMissingValuesH settings s))
           = fst (processMissingValues settings (storeOf ps active s))
    \<and> snd (processMissingValuesH settings s)
           = snd (processMissingValues settings (storeOf ps active s))"
proof -
  define s' where "s' = fst (processMissingValuesH settings s)"
  have fr: "take (length (heap s)) (heap s') = heap s"
    unfolding s'_def by (rule processMissingValuesH_frame)
  from assms have wf: "denotesTable (heap s) (rawDataRef s)"
    "denotesTable (heap s) (processedDataRef s)" "denotesTable (heap s) (cleanedDataRef s)"
    by (simp_all add: wellFormed_def)
  have keep: "tableOf (heap s') (rawDataRef s) = tableOf (heap s) (rawDataRef s)"
    "tableOf (heap s') (processedDataRef s) = tableOf (heap s) (processedDataRef s)"
    "tableOf (heap s') (cleanedDataRef s) = tableOf (heap s) (cleanedDataRef s)"
    using tableOf_extended [OF wf(1) fr] tableOf_extended [OF wf(2) fr]
      tableOf_extended [OF wf(3) fr] by simp_all
  obtain h0 src where sd: "sourceDataH s = (h0, src)" by (cases "sourceDataH s")
  show ?thesis
  proof (cases "sourceData (storeOf ps active s)")
    case None
    with sourceDataH_refines [OF assms, of ps active] sd have "src = None" by simp
    with sd None show ?thesis
      by (simp add: processMissingValuesH_def processMissingValues_def storeOf_def)
  next
    case (Some t)
    with sourceDataH_refines [OF assms, of ps active t] sd obtain a where
      a: "src = Some (Inr a)" "tableAt h0 a = Some t" by auto
    from deepCopyH_table [OF a(2)] obtain h1 cur where
      dc: "deepCopyH a h0 = (h1, Inr cur)" and t1: "tableAt h1 cur = Some (deepCopy t)" by blast
    obtain evs h2 r where pc:
      "processColumnsH 0 (length settings) settings cur h1 = (evs, h2, r)"
      by (cases "processColumnsH 0 (length settings) settings cur h1") auto
    obtain evs0 r0 where pv:
      "processColumns 0 (length settings) settings (deepCopy t) = (evs0, r0)"
      by (cases "processColumns 0 (length settings) settings (deepCopy t)")
    from processColumnsH_refines [OF t1, of 0 "length settings" settings] pc pv
    have ev: "evs = evs0"
      and res: "case r0 of Inl e \<Rightarrow> r = Some e | Inr t' \<Rightarrow> r = None \<and> tableAt h2 cur = Some t'"
      by (auto split: sum.splits)
    show ?thesis
    proof (cases r0)
      case (Inl e)
      with res have r: "r = Some e" by simp
      have h: "processMissingValuesH settings s = catchH s h2 evs e"
        using sd a(1) dc pc r by (simp add: processMissingValuesH_def)
      then have hs: "heap s' = h2" by (simp add: s'_def catchH_def Let_def)
      from keep have k: "tableOf h2 (rawDataRef s) = tableOf (heap s) (rawDataRef s)"
        "tableOf h2 (processedDataRef s) = tableOf (heap s) (processedDataRef s)"
        "tableOf h2 (cleanedDataRef s) = tableOf (heap s) (cleanedDataRef s)"
        by (simp_all add: hs)
      show ?thesis
        using Some pv Inl ev k
        by (simp add: h catchH_def processMissingValues_def Let_def storeOf_def)
    next
      case (Inr t')
      with res have r: "r = None" and t2: "tableAt h2 cur = Some t'" by simp_all
      have h: "processMissingValuesH settings s =
          (s\<lparr>heap := h2, cleanedDataRef := Some cur, isLoadingH := False, errorH := None\<rparr>,
           evs @ [Progress (Fin 100), Complete])"
        using sd a(1) dc pc r by (simp add: processMissingValuesH_def)
      then have hs: "heap s' = h2" by (simp add: s'_def)
      from keep have k: "tableOf h2 (rawDataRef s) = tableOf (heap s) (rawDataRef s)"
        "tableOf h2 (processedDataRef s) = tableOf (heap s) (processedDataRef s)"
        by (simp_all add: hs)
      show ?thesis
        using Some pv Inr ev k t2
        by (simp add: h processMissingValues_def Let_def storeOf_def tableOf_def)
    qed
  qed
qed

subsection \<open>The scenarios of the specification\<close>

lemma isCellMissing_sentinel_examples:
  "isCellMissing (Str ''NA'')" "isCellMissing (Str '' N/A '')" "isCellMissing (Str ''NaN'')"
  "isCellMissing (Str ''  '')" "\<not> isCellMissing (Str ''3'')" "\<not> isCellMissing (Num (Fin 0))"
  "\<not> isCellMissing (Bool False)" "\<not> isCellMissing (Num (Fin 1))" "\<not> isCellMissing (Num (Fin 2))"
  by code_simp+

text \<open>
  Table \<open>x, y\<close> with rows \<open>[1, "NA"], [2, "3"], ["", ""]\<close> and \<open>fill-method\<close> \<open>mean\<close> on
  \<open>y\<close>: the one numeric value is 3, and both missing cells of \<open>y\<close> become 3.
\<close>

lemma scenario_fill_mean:
  "processColumn
     \<lparr>headers = [''x'', ''y''],
      rows = [[Num (Fin 1), Str ''NA''], [Num (Fin 2), Str ''3''], [Str '''', Str '''']]\<rparr>
     (''y'', ColumnSetting ''fill-method'' (Str ''mean''))
   = Inr \<lparr>headers = [''x'', ''y''],
          rows = [[Num (Fin 1), Num (Fin 3)], [Num (Fin 2), Str ''3''], [Str '''', Num (Fin 3)]]\<rparr>"
proof -
  have r: "replacementValue
      [[Num (Fin 1), Str ''NA''], [Num (Fin 2), Str ''3''], [Str '''', Str '''']] (Suc 0)
      (Str ''mean'') = Num (Fin 3)"
    by (simp add: replacementValue_def Let_def cellAt_def isCellMissing_sentinel_examples
        isCellMissing_examples stringToNumber_digit_3 calculateStatistic_def ofNat_def
        fl_numeral)
  show ?thesis
    by (simp add: processColumn_def r fillRow_def cellAt_def setCell_def
        isCellMissing_sentinel_examples isCellMissing_examples)
qed

text \<open>
  The same table and \<open>drop\<close> with threshold 30 on \<open>x\<close>: one cell of three is missing, the
  percentage \<open>33.33333333333333\<close> exceeds 30, and no row is dropped.
\<close>

lemma percentage_1_3:
  "fmul (fdiv (Fin 1) (Fin 3)) (Fin 100) = Fin (2345624805922133 / 70368744177664)"
proof -
  have a: "fl (1 / 3) = Fin (6004799503160661 / 18014398509481984)"
    by (subst fl_normal [of "- 2"])
      (simp_all add: pow2_def roundHalfEven_def Let_def floor_numeral_divide)
  have "fl (6004799503160661 / 18014398509481984 * 100) = Fin (2345624805922133 / 70368744177664)"
    by (subst fl_normal [of 5])
      (simp_all add: pow2_def roundHalfEven_def Let_def floor_numeral_divide)
  with a show ?thesis by simp
qed

lemma scenario_drop_30:
  "processColumn
     \<lparr>headers = [''x'', ''y''],
      rows = [[Num (Fin 1), Str ''NA''], [Num (Fin 2), Str ''3''], [Str '''', Str '''']]\<rparr>
     (''x'', ColumnSetting ''drop'' (Num (Fin 30)))
   = Inr \<lparr>headers = [''x'', ''y''],
          rows = [[Num (Fin 1), Str ''NA''], [Num (Fin 2), Str ''3''], [Str '''', Str '''']]\<rparr>"
proof -
  have "missingPercentage
      [[Num (Fin 1), Str ''NA''], [Num (Fin 2), Str ''3''], [Str '''', Str '''']] 0
      = Fin (2345624805922133 / 70368744177664)"
    using percentage_1_3
    by (simp add: missingPercentage_def missingCount_def cellAt_def ofNat_def
        isCellMissing_sentinel_examples isCellMissing_examples del: fdiv.simps fmul.simps)
  then show ?thesis by (simp add: processColumn_def threshold_def)
qed

end
